theory Spec2Isabelle
  imports Complex_Main "HOL-Library.List_Lexorder"
begin

section \<open>Python strings\<close>

text \<open>
  A Python \<open>str\<close> is a sequence of Unicode code points; it is modelled as the list of
  these code points. Literals of the Basic Latin block are written with \<open>ascii\<close>,
  Cyrillic literals as lists of code points (\<open>1072\<close> is U+0430, the Cyrillic small
  letter a).
\<close>

type_synonym ustr = "nat list"

definition ascii :: "string \<Rightarrow> ustr" where
  "ascii s = map of_char s"

text \<open>
  \<open>str.isspace\<close> for one code point: the whitespace set of CPython
  (U+0009..U+000D, U+001C..U+0020, U+0085, U+00A0, U+1680, U+2000..U+200A, U+2028,
  U+2029, U+202F, U+205F, U+3000).
\<close>

definition isspace :: "nat \<Rightarrow> bool" where
  "isspace c =
     ((9 \<le> c \<and> c \<le> 13) \<or> (28 \<le> c \<and> c \<le> 32) \<or> c = 133 \<or> c = 160 \<or> c = 5760 \<or>
      (8192 \<le> c \<and> c \<le> 8202) \<or> c = 8232 \<or> c = 8233 \<or> c = 8239 \<or> c = 8287 \<or>
      c = 12288)"

text \<open>\<open>str.strip()\<close> without argument: whitespace is removed at both ends.\<close>

definition strip :: "ustr \<Rightarrow> ustr" where
  "strip s = rev (dropWhile isspace (rev (dropWhile isspace s)))"

text \<open>
  The method \<open>str.lower()\<close> belongs to the Python runtime, not to the repository, and
  its case tables cover all of Unicode. Where a property is stated for every string
  (the idempotence of \<open>normalize\<close>), the method is a parameter \<open>str_lower\<close> of the
  model. To run the model, \<open>lower\<close> is the method on the scripts of the data: it agrees
  with \<open>str.lower()\<close> on the blocks Basic Latin and Latin-1 Supplement (U+0000..U+00FF)
  and Cyrillic and Cyrillic Supplement (U+0400..U+052F), where the method works code
  point by code point; the code points of the other blocks are left as they are.
\<close>

definition lower_cp :: "nat \<Rightarrow> nat" where
  "lower_cp c =
     (if 65 \<le> c \<and> c \<le> 90 then c + 32
      else if 192 \<le> c \<and> c \<le> 222 \<and> c \<noteq> 215 then c + 32
      else if 1024 \<le> c \<and> c \<le> 1039 then c + 80
      else if 1040 \<le> c \<and> c \<le> 1071 then c + 32
      else if 1120 \<le> c \<and> c \<le> 1152 \<and> c mod 2 = 0 then c + 1
      else if 1162 \<le> c \<and> c \<le> 1214 \<and> c mod 2 = 0 then c + 1
      else if c = 1216 then 1231
      else if 1217 \<le> c \<and> c \<le> 1229 \<and> c mod 2 = 1 then c + 1
      else if 1232 \<le> c \<and> c \<le> 1326 \<and> c mod 2 = 0 then c + 1
      else c)"

definition lower :: "ustr \<Rightarrow> ustr" where
  "lower s = map lower_cp s"

text \<open>The operator \<open>a in b\<close> on strings: \<open>a\<close> occurs in \<open>b\<close> as a contiguous run.\<close>

fun contains :: "ustr \<Rightarrow> ustr \<Rightarrow> bool" where
  "contains a [] = (a = [])"
| "contains a (c # cs) = (take (length a) (c # cs) = a \<or> contains a cs)"

text \<open>
  \<open>s.replace(old, new)\<close>: every occurrence of \<open>old\<close> is replaced, scanning from the
  left without overlap. With an empty \<open>old\<close>, Python puts \<open>new\<close> before every code
  point and at the end.
\<close>

function replace :: "ustr \<Rightarrow> ustr \<Rightarrow> ustr \<Rightarrow> ustr" where
  "replace old new [] = (if old = [] then new else [])"
| "replace old new (c # cs) =
     (if old = [] then new @ c # replace old new cs
      else if take (length old) (c # cs) = old
        then new @ replace old new (drop (length old) (c # cs))
      else c # replace old new cs)"
  by pat_completeness auto
termination
  by (relation "measure (\<lambda>(old, new, s). length s)") auto

section \<open>Normalizer\<close>

text \<open>
  The body of the loop \<open>while "  " in text: text = text.replace("  ", " ")\<close> of
  \<open>normalize\<close>. It ends, since every round shortens the text.
\<close>

lemma take_eq_length_le:
  assumes "take (length old) s = old"
  shows "length old \<le> length s"
proof -
  have "length old = length (take (length old) s)"
    using assms by simp
  also have "\<dots> \<le> length s"
    by simp
  finally show ?thesis .
qed

lemma replace_not_longer:
  "length new \<le> length old \<Longrightarrow> old \<noteq> [] \<Longrightarrow> length (replace old new s) \<le> length s"
proof (induction old new s rule: replace.induct)
  case (1 old new)
  then show ?case by simp
next
  case (2 old new c cs)
  show ?case
  proof (cases "take (length old) (c # cs) = old")
    case True
    from True have "length old \<le> length (c # cs)" by (rule take_eq_length_le)
    moreover from True "2.IH"(2) "2.prems"
    have "length (replace old new (drop (length old) (c # cs))) \<le> length (c # cs) - length old"
      by simp
    ultimately show ?thesis using True "2.prems" by (simp del: drop_Suc_Cons)
  next
    case False
    with "2.IH"(3) "2.prems" show ?thesis by simp
  qed
qed

lemma replace_shorter:
  "old \<noteq> [] \<Longrightarrow> length new < length old \<Longrightarrow> contains old s \<Longrightarrow>
   length (replace old new s) < length s"
proof (induction old new s rule: replace.induct)
  case (1 old new)
  then show ?case by simp
next
  case (2 old new c cs)
  show ?case
  proof (cases "take (length old) (c # cs) = old")
    case True
    from True have "length old \<le> length (c # cs)" by (rule take_eq_length_le)
    moreover from "2.prems"
    have "length (replace old new (drop (length old) (c # cs))) \<le> length (c # cs) - length old"
      using replace_not_longer [of new old "drop (length old) (c # cs)"] by simp
    ultimately show ?thesis using True "2.prems" by (simp del: drop_Suc_Cons)
  next
    case False
    with "2.prems" "2.IH"(3) show ?thesis by simp
  qed
qed

function collapse_spaces :: "ustr \<Rightarrow> ustr" where
  "collapse_spaces text =
     (if contains [32, 32] text then collapse_spaces (replace [32, 32] [32] text) else text)"
  by pat_completeness auto
termination
  by (relation "measure length") (auto intro: replace_shorter)

text \<open>
  \<open>normalize(text)\<close>, the same function in \<open>bot.py\<close> and \<open>matcher.py\<close>. The argument is
  a cell of a table or a string: \<open>None\<close> is a missing value (\<open>pd.isna\<close>), for which the
  result is the empty string. \<open>normalize_with str_lower\<close> is the function with the
  method \<open>str.lower()\<close> of the runtime as its parameter; \<open>normalize\<close> is the function
  with \<open>lower\<close> for that method.
\<close>

definition normalize_with :: "(ustr \<Rightarrow> ustr) \<Rightarrow> ustr option \<Rightarrow> ustr" where
  "normalize_with str_lower text =
     (case text of
        None \<Rightarrow> []
      | Some t \<Rightarrow> collapse_spaces (str_lower (strip t)))"

definition normalize :: "ustr option \<Rightarrow> ustr" where
  "normalize text = normalize_with lower text"

text \<open>
  \<open>transliterate_ru_to_en\<close>: the table of the source, from the Cyrillic small letters
  (U+0430..U+044F and U+0451) to Latin; two letters (the hard and the soft sign) go to
  the empty string.
\<close>

definition table :: "(nat \<times> ustr) list" where
  "table =
    [
     (1072, ascii ''a''),
     (1073, ascii ''b''),
     (1074, ascii ''v''),
     (1075, ascii ''g''),
     (1076, ascii ''d''),
     (1077, ascii ''e''),
     (1105, ascii ''e''),
     (1078, ascii ''zh''),
     (1079, ascii ''z''),
     (1080, ascii ''i''),
     (1081, ascii ''y''),
     (1082, ascii ''k''),
     (1083, ascii ''l''),
     (1084, ascii ''m''),
     (1085, ascii ''n''),
     (1086, ascii ''o''),
     (1087, ascii ''p''),
     (1088, ascii ''r''),
     (1089, ascii ''s''),
     (1090, ascii ''t''),
     (1091, ascii ''u''),
     (1092, ascii ''f''),
     (1093, ascii ''h''),
     (1094, ascii ''ts''),
     (1095, ascii ''ch''),
     (1096, ascii ''sh''),
     (1097, ascii ''sch''),
     (1098, []),
     (1099, ascii ''y''),
     (1100, []),
     (1101, ascii ''e''),
     (1102, ascii ''yu''),
     (1103, ascii ''ya'')
    ]"

text \<open>\<open>table.get(char, char)\<close>: a code point outside the table is kept.\<close>

definition table_get :: "nat \<Rightarrow> ustr" where
  "table_get char = (case map_of table char of Some r \<Rightarrow> r | None \<Rightarrow> [char])"

definition transliterate_ru_to_en :: "ustr \<Rightarrow> ustr" where
  "transliterate_ru_to_en t = foldl (\<lambda>result char. result @ table_get char) [] (lower t)"

definition normalize_for_search :: "ustr \<Rightarrow> ustr" where
  "normalize_for_search t = transliterate_ru_to_en (normalize (Some t))"

section \<open>Alias expander\<close>

text \<open>
  The dictionary \<open>ALIASES\<close> of the source, in insertion order (the order in which a
  Python dictionary is iterated). Its keys are pairwise distinct. With the Cyrillic
  letters transliterated by the table above, the entries are:
  klaud: cloud; klaud tauer: cloud tower; tauer: tower; grand: grand; garden: garden; vest
  garden: west garden; vest: west; rezidens: residences; pinnakl: pinnacle; marina:
  marina; kanal: canal; front: front; panoramik: panoramic; stella: stella; maris: maris;
  vida: vida; krik: creek; bich: beach; poklonnaya: poklannaya; praympark: praym park;
  praym: praym park; arthaus: arthaus; vellton: vellton tauers; kvartal na leninskom: zhk
  kvartal na leninskom.
\<close>

definition ALIASES :: "(ustr \<times> ustr) list" where
  "ALIASES =
    [
     ([1082, 1083, 1072, 1091, 1076], ascii ''cloud''),
     ([1082, 1083, 1072, 1091, 1076, 32, 1090, 1072, 1091, 1101, 1088], ascii ''cloud tower''),
     ([1090, 1072, 1091, 1101, 1088], ascii ''tower''),
     ([1075, 1088, 1072, 1085, 1076], ascii ''grand''),
     ([1075, 1072, 1088, 1076, 1077, 1085], ascii ''garden''),
     ([1074, 1077, 1089, 1090, 32, 1075, 1072, 1088, 1076, 1077, 1085], ascii ''west garden''),
     ([1074, 1077, 1089, 1090], ascii ''west''),
     ([1088, 1077, 1079, 1080, 1076, 1077, 1085, 1089], ascii ''residences''),
     ([1087, 1080, 1085, 1085, 1072, 1082, 1083], ascii ''pinnacle''),
     ([1084, 1072, 1088, 1080, 1085, 1072], ascii ''marina''),
     ([1082, 1072, 1085, 1072, 1083], ascii ''canal''),
     ([1092, 1088, 1086, 1085, 1090], ascii ''front''),
     ([1087, 1072, 1085, 1086, 1088, 1072, 1084, 1080, 1082], ascii ''panoramic''),
     ([1089, 1090, 1077, 1083, 1083, 1072], ascii ''stella''),
     ([1084, 1072, 1088, 1080, 1089], ascii ''maris''),
     ([1074, 1080, 1076, 1072], ascii ''vida''),
     ([1082, 1088, 1080, 1082], ascii ''creek''),
     ([1073, 1080, 1095], ascii ''beach''),
     ([1087, 1086, 1082, 1083, 1086, 1085, 1085, 1072, 1103],
      [1087, 1086, 1082, 1083, 1072, 1085, 1085, 1072, 1103]),
     ([1087, 1088, 1072, 1081, 1084, 1087, 1072, 1088, 1082],
      [1087, 1088, 1072, 1081, 1084, 32, 1087, 1072, 1088, 1082]),
     ([1087, 1088, 1072, 1081, 1084],
      [1087, 1088, 1072, 1081, 1084, 32, 1087, 1072, 1088, 1082]),
     ([1072, 1088, 1090, 1093, 1072, 1091, 1089], [1072, 1088, 1090, 1093, 1072, 1091, 1089]),
     ([1074, 1077, 1083, 1083, 1090, 1086, 1085],
      [1074, 1077, 1083, 1083, 1090, 1086, 1085, 32, 1090, 1072, 1091, 1101, 1088, 1089]),
     ([1082, 1074, 1072, 1088, 1090, 1072, 1083, 32, 1085, 1072, 32, 1083, 1077, 1085, 1080,
       1085, 1089, 1082, 1086, 1084],
      [1078, 1082, 32, 1082, 1074, 1072, 1088, 1090, 1072, 1083, 32, 1085, 1072, 32, 1083,
       1077, 1085, 1080, 1085, 1089, 1082, 1086, 1084])
    ]"

text \<open>
  The loop \<open>for alias, replacement in ALIASES.items()\<close> of \<open>apply_aliases\<close>, with the
  list \<open>variants\<close> as its state.
\<close>

fun alias_loop :: "ustr \<Rightarrow> (ustr \<times> ustr) list \<Rightarrow> ustr list \<Rightarrow> ustr list" where
  "alias_loop query_norm [] variants = variants"
| "alias_loop query_norm ((alias, replacement) # rest) variants =
     (if contains alias query_norm \<and> alias \<noteq> query_norm then
        (let new_query = replace alias replacement query_norm in
         if new_query \<notin> set variants
         then alias_loop query_norm rest (variants @ [new_query])
         else alias_loop query_norm rest variants)
      else alias_loop query_norm rest variants)"

definition apply_aliases :: "ustr \<Rightarrow> ustr list" where
  "apply_aliases query =
     (let query_norm = normalize (Some query);
          variants = [query_norm];
          variants = (case map_of ALIASES query_norm of
                        Some replacement \<Rightarrow> variants @ [normalize (Some replacement)]
                      | None \<Rightarrow> variants)
      in alias_loop query_norm ALIASES variants)"

section \<open>Synonym groups\<close>

text \<open>
  The list \<open>SYNONYMS\<close> of the source: the groups of names of one object. With the
  Cyrillic letters transliterated, the groups are:
  Praym park = Prime Park; Shagal = Shagal; Soul = Soul; Slava = Slava; Rakurs = Rakurs;
  Printsipal plaza = Principal Plaza; Primavera novaya = Primavera; Sinatra = Sinatra
  vtorichka; Balchug rezidens = Balchug Residence; Sidney Siti = Sidney City = Sydney
  city; Bashnya Federatsiya = Bashnya Federatsiya vtorichka; Sadovye kvartaly = Vtorichka
  Sadovye kvartaly; Dinastiya = Vtorichka Dinastiya; Knightsbridge Private Park =
  Vtorichka Knightsbridge Private Park; Ostrov = Ostrov Vtorichka; ZhK Krylya = Krylya
  vtorichka; ZhK Tavricheskiy = Tavricheskiy; Dom v Nikolino = Nikolino; Bashnya Gorod
  Stolits = Gorod Stolits; Level Michurinskiy = Michurinskiy; Canal Front = Canal Front
  Residences 3; Poklonnaya 9 = Poklonnaya, 9 = Poklannaya 9; Lucky = Lacky.
\<close>

definition SYNONYMS :: "ustr list list" where
  "SYNONYMS =
    [
     [[1055, 1088, 1072, 1081, 1084, 32, 1087, 1072, 1088, 1082], ascii ''Prime Park''],
     [[1064, 1072, 1075, 1072, 1083], ascii ''Shagal''],
     [[1057, 1086, 1091, 1083], ascii ''Soul''],
     [[1057, 1083, 1072, 1074, 1072], ascii ''Slava''],
     [[1056, 1072, 1082, 1091, 1088, 1089], ascii ''Rakurs''],
     [[1055, 1088, 1080, 1085, 1094, 1080, 1087, 1072, 1083, 32, 1087, 1083, 1072, 1079, 1072],
      ascii ''Principal Plaza''],
     [[1055, 1088, 1080, 1084, 1072, 1074, 1077, 1088, 1072, 32, 1085, 1086, 1074, 1072, 1103],
      ascii ''Primavera''],
     [[1057, 1080, 1085, 1072, 1090, 1088, 1072],
      ascii ''Sinatra '' @ [1074, 1090, 1086, 1088, 1080, 1095, 1082, 1072]],
     [[1041, 1072, 1083, 1095, 1091, 1075, 32, 1088, 1077, 1079, 1080, 1076, 1077, 1085, 1089],
      ascii ''Balchug Residence''],
     [[1057, 1080, 1076, 1085, 1077, 1081, 32, 1057, 1080, 1090, 1080],
      ascii ''Sidney City'',
      ascii ''Sydney city''],
     [[1041, 1072, 1096, 1085, 1103, 32, 1060, 1077, 1076, 1077, 1088, 1072, 1094, 1080, 1103],
      [1041, 1072, 1096, 1085, 1103, 32, 1060, 1077, 1076, 1077, 1088, 1072, 1094, 1080, 1103,
       32, 1074, 1090, 1086, 1088, 1080, 1095, 1082, 1072]],
     [[1057, 1072, 1076, 1086, 1074, 1099, 1077, 32, 1082, 1074, 1072, 1088, 1090, 1072, 1083,
       1099],
      [1042, 1090, 1086, 1088, 1080, 1095, 1082, 1072, 32, 1057, 1072, 1076, 1086, 1074, 1099,
       1077, 32, 1082, 1074, 1072, 1088, 1090, 1072, 1083, 1099]],
     [[1044, 1080, 1085, 1072, 1089, 1090, 1080, 1103],
      [1042, 1090, 1086, 1088, 1080, 1095, 1082, 1072, 32, 1044, 1080, 1085, 1072, 1089, 1090,
       1080, 1103]],
     [ascii ''Knightsbridge Private Park'',
      [1042, 1090, 1086, 1088, 1080, 1095, 1082, 1072] @ ascii '' Knightsbridge Private Park''],
     [[1054, 1089, 1090, 1088, 1086, 1074],
      [1054, 1089, 1090, 1088, 1086, 1074, 32, 1042, 1090, 1086, 1088, 1080, 1095, 1082, 1072]],
     [[1046, 1050, 32, 1050, 1088, 1099, 1083, 1100, 1103],
      [1050, 1088, 1099, 1083, 1100, 1103, 32, 1074, 1090, 1086, 1088, 1080, 1095, 1082, 1072]],
     [[1046, 1050, 32, 1058, 1072, 1074, 1088, 1080, 1095, 1077, 1089, 1082, 1080, 1081],
      [1058, 1072, 1074, 1088, 1080, 1095, 1077, 1089, 1082, 1080, 1081]],
     [[1044, 1086, 1084, 32, 1074, 32, 1053, 1080, 1082, 1086, 1083, 1080, 1085, 1086],
      [1053, 1080, 1082, 1086, 1083, 1080, 1085, 1086]],
     [[1041, 1072, 1096, 1085, 1103, 32, 1043, 1086, 1088, 1086, 1076, 32, 1057, 1090, 1086,
       1083, 1080, 1094],
      [1043, 1086, 1088, 1086, 1076, 32, 1057, 1090, 1086, 1083, 1080, 1094]],
     [ascii ''Level '' @ [1052, 1080, 1095, 1091, 1088, 1080, 1085, 1089, 1082, 1080, 1081],
      [1052, 1080, 1095, 1091, 1088, 1080, 1085, 1089, 1082, 1080, 1081]],
     [ascii ''Canal Front'', ascii ''Canal Front Residences 3''],
     [[1055, 1086, 1082, 1083, 1086, 1085, 1085, 1072, 1103, 32, 57],
      [1055, 1086, 1082, 1083, 1086, 1085, 1085, 1072, 1103] @ ascii '', 9'',
      [1055, 1086, 1082, 1083, 1072, 1085, 1085, 1072, 1103, 32, 57]],
     [ascii ''Lucky'', ascii ''Lacky'']
    ]"

text \<open>The loop \<open>for group in SYNONYMS\<close> of \<open>get_synonyms\<close>.\<close>

fun synonyms_loop :: "ustr \<Rightarrow> ustr \<Rightarrow> ustr list list \<Rightarrow> ustr list" where
  "synonyms_loop object_name object_norm [] = [object_name]"
| "synonyms_loop object_name object_norm (grp # rest) =
     (let group_norm = map (\<lambda>name. normalize (Some name)) grp in
      if object_norm \<in> set group_norm then grp
      else synonyms_loop object_name object_norm rest)"

definition get_synonyms :: "ustr \<Rightarrow> ustr list" where
  "get_synonyms object_name = synonyms_loop object_name (normalize (Some object_name)) SYNONYMS"

section \<open>Matcher\<close>

text \<open>
  The fuzzy scorer (\<open>fuzz.WRatio\<close> of the library rapidfuzz) is not part of the
  repository; it is a parameter of the model, a function from two strings to a score.
  \<open>process.extractOne(query, choices, scorer, score_cutoff)\<close> is modelled by its
  contract: the choice with the highest score among those that reach the cutoff, the
  earliest one on a tie, with its score and its index; \<open>None\<close> when no choice reaches
  the cutoff.
\<close>

type_synonym scorer = "ustr \<Rightarrow> ustr \<Rightarrow> rat"

fun extract_loop ::
  "scorer \<Rightarrow> ustr \<Rightarrow> rat \<Rightarrow> (nat \<times> ustr) list \<Rightarrow> (ustr \<times> rat \<times> nat) option \<Rightarrow>
   (ustr \<times> rat \<times> nat) option" where
  "extract_loop scorer query score_cutoff [] best = best"
| "extract_loop scorer query score_cutoff ((i, choice) # rest) best =
     (let score = scorer query choice in
      if score_cutoff \<le> score \<and> (case best of None \<Rightarrow> True | Some (_, b, _) \<Rightarrow> b < score)
      then extract_loop scorer query score_cutoff rest (Some (choice, score, i))
      else extract_loop scorer query score_cutoff rest best)"

definition extractOne ::
  "scorer \<Rightarrow> ustr \<Rightarrow> ustr list \<Rightarrow> rat \<Rightarrow> (ustr \<times> rat \<times> nat) option" where
  "extractOne scorer query choices score_cutoff =
     extract_loop scorer query score_cutoff (enumerate 0 choices) None"

text \<open>
  The three loops \<open>for i, obj in enumerate(objects)\<close> of \<open>find_best_match\<close>: each
  returns the first object whose condition holds.
\<close>

definition tier_exact :: "ustr \<Rightarrow> ustr \<Rightarrow> ustr list \<Rightarrow> ustr list \<Rightarrow> ustr list \<Rightarrow> ustr option" where
  "tier_exact query_variant query_translit objects objects_norm objects_translit =
     map_option snd
       (find (\<lambda>(i, obj). query_variant = objects_norm ! i \<or> query_translit = objects_translit ! i)
          (enumerate 0 objects))"

definition tier_contains :: "ustr \<Rightarrow> ustr \<Rightarrow> ustr list \<Rightarrow> ustr list \<Rightarrow> ustr list \<Rightarrow> ustr option" where
  "tier_contains query_variant query_translit objects objects_norm objects_translit =
     map_option snd
       (find (\<lambda>(i, obj). contains query_variant (objects_norm ! i) \<or>
                          contains query_translit (objects_translit ! i))
          (enumerate 0 objects))"

definition tier_reverse :: "ustr \<Rightarrow> ustr \<Rightarrow> ustr list \<Rightarrow> ustr list \<Rightarrow> ustr list \<Rightarrow> ustr option" where
  "tier_reverse query_variant query_translit objects objects_norm objects_translit =
     map_option snd
       (find (\<lambda>(i, obj). contains (objects_norm ! i) query_variant \<or>
                          contains (objects_translit ! i) query_translit)
          (enumerate 0 objects))"

text \<open>The first loop \<open>for query_variant in query_variants\<close>: tiers 1 to 3.\<close>

fun cascade_loop ::
  "ustr list \<Rightarrow> ustr list \<Rightarrow> ustr list \<Rightarrow> ustr list \<Rightarrow> (ustr \<times> rat \<times> bool) option" where
  "cascade_loop objects objects_norm objects_translit [] = None"
| "cascade_loop objects objects_norm objects_translit (query_variant # rest) =
     (let query_translit = normalize_for_search query_variant in
      case tier_exact query_variant query_translit objects objects_norm objects_translit of
        Some obj \<Rightarrow> Some (obj, 100, True)
      | None \<Rightarrow>
     (case tier_contains query_variant query_translit objects objects_norm objects_translit of
        Some obj \<Rightarrow> Some (obj, 95, True)
      | None \<Rightarrow>
     (case tier_reverse query_variant query_translit objects objects_norm objects_translit of
        Some obj \<Rightarrow> Some (obj, 90, True)
      | None \<Rightarrow> cascade_loop objects objects_norm objects_translit rest)))"

text \<open>
  The second loop over the variants: the fuzzy search, with \<open>best_result\<close> and
  \<open>best_score\<close> as its state.
\<close>

fun fuzzy_loop ::
  "scorer \<Rightarrow> ustr list \<Rightarrow> ustr list \<Rightarrow> (ustr \<times> rat \<times> nat) option \<Rightarrow> rat \<Rightarrow>
   (ustr \<times> rat \<times> nat) option" where
  "fuzzy_loop scorer objects_translit [] best_result best_score = best_result"
| "fuzzy_loop scorer objects_translit (query_variant # rest) best_result best_score =
     (let query_translit = normalize_for_search query_variant;
          result = extractOne scorer query_translit objects_translit 75
      in case result of
           Some (m, score, idx) \<Rightarrow>
             if best_score < score
             then fuzzy_loop scorer objects_translit rest result score
             else fuzzy_loop scorer objects_translit rest best_result best_score
         | None \<Rightarrow> fuzzy_loop scorer objects_translit rest best_result best_score)"

text \<open>
  \<open>find_best_match(query, objects)\<close>; the result is the triple
  (matched object or \<open>None\<close>, score, exact).
\<close>

definition find_best_match :: "scorer \<Rightarrow> ustr \<Rightarrow> ustr list \<Rightarrow> ustr option \<times> rat \<times> bool" where
  "find_best_match scorer query objects =
     (if objects = [] then (None, 0, False)
      else
        let query_variants = apply_aliases query;
            objects_norm = map (\<lambda>obj. normalize (Some obj)) objects;
            objects_translit = map normalize_for_search objects
        in case cascade_loop objects objects_norm objects_translit query_variants of
             Some (obj, score, exact) \<Rightarrow> (Some obj, score, exact)
           | None \<Rightarrow>
               (case fuzzy_loop scorer objects_translit query_variants None 0 of
                  Some (match_translit, score, idx) \<Rightarrow> (Some (objects ! idx), score, False)
                | None \<Rightarrow> (None, 0, False)))"

section \<open>District index\<close>

text \<open>
  One entry of the reference file: the fields \<open>district\<close>, \<open>city\<close> and \<open>country\<close> of an
  object. \<open>None\<close> stands for a key that is absent or null; \<open>normalize\<close> maps both to the
  empty string. \<open>load_districts\<close> gives the entries in the order of the file, and no
  entry when the file does not exist or has no key \<open>objects\<close> (the argument \<open>None\<close>).
\<close>

record info =
  district :: "ustr option"
  city :: "ustr option"
  country :: "ustr option"

record district_object =
  object_name :: ustr
  object_district :: "ustr option"
  object_city :: "ustr option"
  object_country :: "ustr option"

definition load_districts :: "(ustr \<times> info) list option \<Rightarrow> (ustr \<times> info) list" where
  "load_districts file = (case file of None \<Rightarrow> [] | Some objects \<Rightarrow> objects)"

text \<open>The loop \<open>for obj_name, info in districts_data.items()\<close> of \<open>get_objects_by_district\<close>.\<close>

fun district_loop ::
  "ustr \<Rightarrow> (ustr \<times> info) list \<Rightarrow> district_object list \<Rightarrow> district_object list" where
  "district_loop district_query_norm [] results = results"
| "district_loop district_query_norm ((obj_name, i) # rest) results =
     (let district_norm = normalize (district i);
          city_norm = normalize (city i);
          entry = \<lparr>object_name = obj_name, object_district = district i,
                   object_city = city i, object_country = country i\<rparr>
      in if contains district_query_norm district_norm \<or>
            contains district_norm district_query_norm
         then district_loop district_query_norm rest (results @ [entry])
         else if contains district_query_norm city_norm \<or> city_norm = district_query_norm
         then district_loop district_query_norm rest (results @ [entry])
         else district_loop district_query_norm rest results)"

definition get_objects_by_district ::
  "(ustr \<times> info) list option \<Rightarrow> ustr \<Rightarrow> district_object list" where
  "get_objects_by_district file district_query =
     district_loop (normalize (Some district_query)) (load_districts file) []"

section \<open>Transactional data\<close>

text \<open>
  A loaded sheet: the names of its columns and its rows. A row has one cell for each
  column the program reads (broker, date, object, status); a cell is a string or a
  missing value (\<open>None\<close>). The cell of a column that the sheet does not have is never
  read.
\<close>

record row =
  r_broker :: "ustr option"
  r_date :: "ustr option"
  r_object :: "ustr option"
  r_status :: "ustr option"

record dataframe =
  columns :: "ustr list"
  rows :: "row list"

text \<open>The column names: Broker, Date, Object and Status, in Russian.\<close>

definition col_broker :: ustr where
  "col_broker = [1041, 1088, 1086, 1082, 1077, 1088]"

definition col_date :: ustr where
  "col_date = [1044, 1072, 1090, 1072]"

definition col_object :: ustr where
  "col_object = [1054, 1073, 1098, 1077, 1082, 1090]"

definition col_status :: ustr where
  "col_status = [1057, 1090, 1072, 1090, 1091, 1089]"

definition required :: "ustr list" where
  "required = [col_broker, col_date, col_object]"

text \<open>
  The messages of the source: \<open>msg_missing_column\<close> is the prefix of the message
  ``column is absent: '' that is followed by the name of the column, \<open>msg_no_file\<close>
  says that the data file was not found, \<open>msg_no_data\<close> that there is no data in the
  period.
\<close>

definition msg_missing_column :: ustr where
  "msg_missing_column =
     [1054, 1090, 1089, 1091, 1090, 1089, 1090, 1074, 1091, 1077, 1090, 32,
      1082, 1086, 1083, 1086, 1085, 1082, 1072, 58, 32]"

definition msg_no_file :: ustr where
  "msg_no_file =
     [1060, 1072, 1081, 1083, 32, 1076, 1072, 1085, 1085, 1099, 1093, 32, 1085, 1077, 32,
      1085, 1072, 1081, 1076, 1077, 1085]"

definition msg_no_data :: ustr where
  "msg_no_data =
     [1053, 1077, 1090, 32, 1076, 1072, 1085, 1085, 1099, 1093, 32, 1079, 1072, 32,
      1091, 1082, 1072, 1079, 1072, 1085, 1085, 1099, 1081, 32,
      1087, 1077, 1088, 1080, 1086, 1076]"

text \<open>
  The exceptions that the modelled code raises: \<open>ValueError\<close> with its message is the
  one of \<open>find_brokers\<close>; \<open>StrptimeError\<close> is the \<open>ValueError\<close> of
  \<open>datetime.strptime\<close> on a string that is no date; \<open>TypeError\<close> is raised by
  \<open>strptime\<close> on a missing value; \<open>OverflowError\<close> by the subtraction of a period that
  leaves the range of \<open>datetime\<close>; \<open>RegexError\<close> by an invalid pattern;
  \<open>AttributeError\<close> by the accessor \<open>.str\<close> on a column that holds no strings.
\<close>

datatype py_exn =
  FileNotFoundError | ValueError ustr | StrptimeError | TypeError | OverflowError | RegexError
| AttributeError

text \<open>
  The loop \<open>for col in required\<close>: the first required column that the sheet does not
  have.
\<close>

fun check_columns :: "ustr list \<Rightarrow> ustr list \<Rightarrow> ustr option" where
  "check_columns [] cols = None"
| "check_columns (col # rest) cols =
     (if col \<notin> set cols then Some col else check_columns rest cols)"

text \<open>
  \<open>load_data()\<close> of the bot: the pair (sheet, error message). The argument is the
  sheet in the data file, \<open>None\<close> when the file does not exist.
\<close>

definition load_data :: "dataframe option \<Rightarrow> dataframe option \<times> ustr option" where
  "load_data file =
     (case file of
        None \<Rightarrow> (None, Some msg_no_file)
      | Some df \<Rightarrow>
          (case check_columns required (columns df) of
             Some col \<Rightarrow> (None, Some (msg_missing_column @ col))
           | None \<Rightarrow> (Some df, None)))"

text \<open>
  A \<open>datetime\<close>: the day as its proleptic Gregorian ordinal (day 1 is 1 January of
  year 1, day 3652059 is 31 December 9999) and the microseconds since midnight.
  \<open>minus_days t days\<close> is \<open>t - timedelta(days=days)\<close>, which raises \<open>OverflowError\<close>
  outside the range of \<open>datetime\<close>; \<open>dt_le\<close> is the comparison \<open><=\<close>.
\<close>

record datetime =
  ordinal :: int
  micros :: nat

definition minus_days :: "datetime \<Rightarrow> int \<Rightarrow> py_exn + datetime" where
  "minus_days t days =
     (let d = ordinal t - days
      in if 1 \<le> d \<and> d \<le> 3652059 then Inr (t\<lparr>ordinal := d\<rparr>) else Inl OverflowError)"

definition dt_le :: "datetime \<Rightarrow> datetime \<Rightarrow> bool" where
  "dt_le a b = (ordinal a < ordinal b \<or> (ordinal a = ordinal b \<and> micros a \<le> micros b))"

text \<open>
  \<open>parse_date(date_str)\<close> is \<open>datetime.strptime(date_str, "%d.%m.%Y")\<close>. The parser of
  the standard library is a parameter: \<open>strptime s\<close> is the ordinal of the day that
  the string \<open>s\<close> denotes in the format day.month.year, \<open>None\<close> when \<open>s\<close> does not match.
  The format has no time of day, so the result is at midnight.
\<close>

type_synonym strptime = "ustr \<Rightarrow> int option"

definition parse_date :: "strptime \<Rightarrow> ustr option \<Rightarrow> py_exn + datetime" where
  "parse_date strptime date_str =
     (case date_str of
        None \<Rightarrow> Inl TypeError
      | Some s \<Rightarrow>
          (case strptime s of
             None \<Rightarrow> Inl StrptimeError
           | Some d \<Rightarrow> Inr \<lparr>ordinal = d, micros = 0\<rparr>))"

text \<open>
  \<open>df["_date"] = df[Date].apply(parse_date)\<close>: every row gets its parsed date; the
  first cell that does not parse raises.
\<close>

fun apply_parse_date :: "strptime \<Rightarrow> row list \<Rightarrow> py_exn + (row \<times> datetime) list" where
  "apply_parse_date strptime [] = Inr []"
| "apply_parse_date strptime (r # rest) =
     (case parse_date strptime (r_date r) of
        Inl e \<Rightarrow> Inl e
      | Inr d \<Rightarrow>
          (case apply_parse_date strptime rest of
             Inl e \<Rightarrow> Inl e
           | Inr ds \<Rightarrow> Inr ((r, d) # ds)))"

text \<open>
  The date filter, the same three statements in \<open>search_brokers\<close>,
  \<open>search_by_district\<close> and \<open>find_brokers\<close>:
  \<open>cutoff = datetime.now() - timedelta(days=days)\<close>, then the parsed dates, then
  \<open>df = df[df["_date"] >= cutoff]\<close>.
\<close>

definition rows_in_period :: "strptime \<Rightarrow> datetime \<Rightarrow> int \<Rightarrow> row list \<Rightarrow> py_exn + row list" where
  "rows_in_period strptime now days rs =
     (case minus_days now days of
        Inl e \<Rightarrow> Inl e
      | Inr cutoff \<Rightarrow>
          (case apply_parse_date strptime rs of
             Inl e \<Rightarrow> Inl e
           | Inr dated \<Rightarrow> Inr (map fst (filter (\<lambda>(r, d). dt_le cutoff d) dated))))"

text \<open>
  \<open>Series.unique()\<close>: the distinct values in the order of their first occurrence;
  \<open>dropna()\<close>: the values that are not missing.
\<close>

definition unique :: "'a list \<Rightarrow> 'a list" where
  "unique xs = foldl (\<lambda>seen x. if x \<in> set seen then seen else seen @ [x]) [] xs"

definition dropna :: "'a option list \<Rightarrow> 'a list" where
  "dropna cells = List.map_filter (\<lambda>c. c) cells"

text \<open>
  The brokers of the rows that are left: missing values dropped, stripped, empty
  strings dropped, distinct, sorted (strings are ordered code point by code point).
\<close>

definition unique_brokers :: "row list \<Rightarrow> ustr list" where
  "unique_brokers rs =
     sort (unique (filter (\<lambda>b. b \<noteq> []) (map strip (dropna (map r_broker rs)))))"

text \<open>
  The accessor \<open>.str\<close> in \<open>df[Broker].dropna().str.strip()\<close> wants a column of
  strings. A sheet that has rows but no text in any cell of the broker column is
  loaded with a broker column of numbers (all of them missing), and the accessor
  raises \<open>AttributeError\<close>, also after the rows were filtered. \<open>brokers_of df rs\<close> are
  the brokers of the rows \<open>rs\<close> of the sheet \<open>df\<close>.
\<close>

definition broker_column_is_text :: "dataframe \<Rightarrow> bool" where
  "broker_column_is_text df =
     (rows df = [] \<or> list_ex (\<lambda>r. r_broker r \<noteq> None) (rows df))"

definition brokers_of :: "dataframe \<Rightarrow> row list \<Rightarrow> py_exn + ustr list" where
  "brokers_of df rs =
     (if broker_column_is_text df then Inr (unique_brokers rs) else Inl AttributeError)"

section \<open>Broker search of the bot\<close>

definition DAYS :: int where
  "DAYS = 60"

text \<open>
  The dictionary that \<open>search_brokers\<close> returns: an error, ``not found'', or the
  match with its aggregated brokers. \<open>load_data\<close> always returns a sheet or a
  message; with neither, the source would read a column of \<open>None\<close>, which raises
  \<open>TypeError\<close>.
  The rows of \<open>df_filtered\<close> all have an object name, so that \<open>dropna\<close> in
  \<open>found_objects\<close> only turns the cells into strings.
\<close>

record found =
  f_query :: ustr
  f_object :: ustr
  f_objects :: "ustr list"
  f_days :: int
  f_brokers :: "ustr list"
  f_score :: rat
  f_exact :: bool

datatype search_result = Error ustr | NotFound ustr int | Found found

definition search_brokers ::
  "strptime \<Rightarrow> scorer \<Rightarrow> dataframe option \<Rightarrow> datetime \<Rightarrow> ustr \<Rightarrow> py_exn + search_result" where
  "search_brokers strptime scorer file now query =
     (case load_data file of
        (_, Some error) \<Rightarrow> Inr (Error error)
      | (None, None) \<Rightarrow> Inl TypeError
      | (Some df, None) \<Rightarrow>
          (case rows_in_period strptime now DAYS (rows df) of
             Inl e \<Rightarrow> Inl e
           | Inr rs \<Rightarrow>
               if rs = [] then Inr (Error msg_no_data)
               else
                 let objects = unique (dropna (map r_object rs)) in
                 (case find_best_match scorer query objects of
                    (None, score, exact) \<Rightarrow> Inr (NotFound query DAYS)
                  | (Some best_match, score, exact) \<Rightarrow>
                      if best_match = [] then Inr (NotFound query DAYS)
                      else
                        let synonyms = get_synonyms best_match;
                            df_filtered =
                              filter (\<lambda>r. case r_object r of
                                             None \<Rightarrow> False
                                           | Some name \<Rightarrow> name \<in> set synonyms) rs
                        in (case brokers_of df df_filtered of
                              Inl e \<Rightarrow> Inl e
                            | Inr brokers \<Rightarrow>
                                let found_objects = unique (dropna (map r_object df_filtered))
                                in Inr (Found \<lparr>f_query = query, f_object = best_match,
                                                f_objects = found_objects, f_days = DAYS,
                                                f_brokers = brokers, f_score = score,
                                                f_exact = exact\<rparr>)))))"

text \<open>
  The replies of \<open>handle_message\<close>, by their kind and the values that the text of the
  reply is built from: nothing is sent for an empty message; a message that starts
  with the word for ``district'' goes to the district search; otherwise the reply
  shows an error, says that nothing was found for the query, suggests an object
  (the only value in that text is the name of the object) or lists the brokers under
  a header.
\<close>

datatype reply =
  NoReply
| DistrictSearch ustr
| ReplyError ustr
| ReplyNothingFound ustr
| ReplySuggestion ustr
| ReplyBrokers ustr "ustr list" int

text \<open>\<open>" / ".join(found_objects)\<close> and \<open>s.lstrip(":")\<close>.\<close>

fun join_slash :: "ustr list \<Rightarrow> ustr" where
  "join_slash [] = []"
| "join_slash [x] = x"
| "join_slash (x # y # ys) = x @ [32, 47, 32] @ join_slash (y # ys)"

definition lstrip_colon :: "ustr \<Rightarrow> ustr" where
  "lstrip_colon s = dropWhile (\<lambda>c. c = 58) s"

text \<open>The part of \<open>handle_message\<close> after the call of \<open>search_brokers\<close>.\<close>

definition reply_of_result :: "search_result \<Rightarrow> reply" where
  "reply_of_result result =
     (case result of
        Error error \<Rightarrow> ReplyError error
      | NotFound query days \<Rightarrow> ReplyNothingFound query
      | Found r \<Rightarrow>
          if \<not> f_exact r then ReplySuggestion (f_object r)
          else
            let header = (if 1 < length (f_objects r) then join_slash (f_objects r)
                          else f_object r)
            in ReplyBrokers header (f_brokers r) (f_days r))"

definition handle_message ::
  "strptime \<Rightarrow> scorer \<Rightarrow> dataframe option \<Rightarrow> datetime \<Rightarrow> ustr \<Rightarrow> py_exn + reply" where
  "handle_message strptime scorer file now message_text =
     (let query = strip message_text in
      if query = [] then Inr NoReply
      else
        let query_lower = lower query;
            district_query = lstrip_colon (strip (drop 6 query))
        in if (take 6 query_lower = [1088, 1072, 1081, 1086, 1085, 32] \<or>
               take 6 query_lower = [1088, 1072, 1081, 1086, 1085, 58]) \<and>
              district_query \<noteq> []
           then Inr (DistrictSearch district_query)
           else
             (case search_brokers strptime scorer file now query of
                Inl e \<Rightarrow> Inl e
              | Inr result \<Rightarrow> Inr (reply_of_result result)))"

section \<open>Broker search of the command line\<close>

text \<open>
  The dictionary that \<open>find_brokers\<close> returns. In the mode ``contains'' the source
  calls \<open>Series.str.contains\<close>, which reads the query as a regular expression: the
  regular expression engine is a parameter, \<open>re_compile pattern\<close> is the predicate
  ``the pattern is found in the string'', \<open>None\<close> for an invalid pattern.
\<close>

record brokers_result =
  b_object :: ustr
  b_days :: int
  b_match :: ustr
  b_brokers :: "ustr list"

type_synonym re_compile = "ustr \<Rightarrow> (ustr \<Rightarrow> bool) option"

definition find_brokers ::
  "strptime \<Rightarrow> re_compile \<Rightarrow> dataframe option \<Rightarrow> datetime \<Rightarrow> ustr \<Rightarrow> int \<Rightarrow> ustr \<Rightarrow>
   ustr option \<Rightarrow> py_exn + brokers_result" where
  "find_brokers strptime re_compile file now object_query days match_mode exclude_status =
     (case file of
        None \<Rightarrow> Inl FileNotFoundError
      | Some df \<Rightarrow>
     (case check_columns required (columns df) of
        Some col \<Rightarrow> Inl (ValueError (msg_missing_column @ col))
      | None \<Rightarrow>
          let query_norm = normalize (Some object_query) in
     (case rows_in_period strptime now days (rows df) of
        Inl e \<Rightarrow> Inl e
      | Inr rs \<Rightarrow>
     (case (if match_mode = ascii ''exact''
            then Inr (filter (\<lambda>r. normalize (r_object r) = query_norm) rs)
            else (case re_compile query_norm of
                    None \<Rightarrow> Inl RegexError
                  | Some found_in \<Rightarrow> Inr (filter (\<lambda>r. found_in (normalize (r_object r))) rs))) of
        Inl e \<Rightarrow> Inl e
      | Inr matched \<Rightarrow>
          let kept =
                (case exclude_status of
                   None \<Rightarrow> matched
                 | Some s \<Rightarrow>
                     if s \<noteq> [] \<and> col_status \<in> set (columns df)
                     then filter (\<lambda>r. r_status r \<noteq> Some s) matched
                     else matched)
          in (case brokers_of df kept of
                Inl e \<Rightarrow> Inl e
              | Inr brokers \<Rightarrow>
                  Inr \<lparr>b_object = object_query, b_days = days, b_match = match_mode,
                       b_brokers = brokers\<rparr>)))))"

section \<open>The cascade of the specification\<close>

text \<open>
  The conditions of the three deterministic tiers, for one alias variant \<open>v\<close> and one
  candidate \<open>c\<close>, as the specification states them: the candidate's normalized form
  equals the variant, or the transliterated forms are equal (tier 1); the variant is
  contained in the candidate (tier 2); the candidate is contained in the variant
  (tier 3).
\<close>

definition exact_hit :: "ustr \<Rightarrow> ustr \<Rightarrow> bool" where
  "exact_hit v c =
     (v = normalize (Some c) \<or> normalize_for_search v = normalize_for_search c)"

definition forward_hit :: "ustr \<Rightarrow> ustr \<Rightarrow> bool" where
  "forward_hit v c =
     (contains v (normalize (Some c)) \<or>
      contains (normalize_for_search v) (normalize_for_search c))"

definition reverse_hit :: "ustr \<Rightarrow> ustr \<Rightarrow> bool" where
  "reverse_hit v c =
     (contains (normalize (Some c)) v \<or>
      contains (normalize_for_search c) (normalize_for_search v))"

text \<open>
  One variant exhausts tier 1, then tier 2, then tier 3; inside a tier the first
  candidate of the pool wins.
\<close>

definition variant_tiers :: "ustr list \<Rightarrow> ustr \<Rightarrow> (ustr \<times> rat) option" where
  "variant_tiers candidates v =
     (case find (exact_hit v) candidates of
        Some c \<Rightarrow> Some (c, 100)
      | None \<Rightarrow>
     (case find (forward_hit v) candidates of
        Some c \<Rightarrow> Some (c, 95)
      | None \<Rightarrow>
     (case find (reverse_hit v) candidates of
        Some c \<Rightarrow> Some (c, 90)
      | None \<Rightarrow> None)))"

text \<open>
  The fourth tier of \<open>find_best_match\<close>: its second loop over the variants and the
  return that follows it.
\<close>

definition fuzzy_tier :: "scorer \<Rightarrow> ustr list \<Rightarrow> ustr list \<Rightarrow> ustr option \<times> rat \<times> bool" where
  "fuzzy_tier scorer objects query_variants =
     (case fuzzy_loop scorer (map normalize_for_search objects) query_variants None 0 of
        Some (match_translit, score, idx) \<Rightarrow> (Some (objects ! idx), score, False)
      | None \<Rightarrow> (None, 0, False))"

text \<open>
  The resolution cascade in the specification's words: the variants are tried in the
  order of the alias expander, the first variant for which a tier finds a candidate
  decides; the fuzzy tier runs only when no variant finds anything.
\<close>

definition resolve :: "scorer \<Rightarrow> ustr list \<Rightarrow> ustr list \<Rightarrow> ustr option \<times> rat \<times> bool" where
  "resolve scorer variants candidates =
     (case List.map_filter (variant_tiers candidates) variants of
        (c, score) # _ \<Rightarrow> (Some c, score, True)
      | [] \<Rightarrow> fuzzy_tier scorer candidates variants)"

text \<open>
  The record that \<open>get_objects_by_district\<close> builds for an entry; the condition under
  which the code takes an entry (\<open>district_match\<close>); and the condition as the
  specification words it, with containment of the city in the query as well
  (\<open>claimed_district_match\<close>).
\<close>

definition entry_of :: "ustr \<times> info \<Rightarrow> district_object" where
  "entry_of e =
     \<lparr>object_name = fst e, object_district = district (snd e),
      object_city = city (snd e), object_country = country (snd e)\<rparr>"

definition district_match :: "ustr \<Rightarrow> info \<Rightarrow> bool" where
  "district_match q i =
     (contains q (normalize (district i)) \<or> contains (normalize (district i)) q \<or>
      contains q (normalize (city i)))"

definition claimed_district_match :: "ustr \<Rightarrow> info \<Rightarrow> bool" where
  "claimed_district_match q i =
     (contains q (normalize (district i)) \<or> contains (normalize (district i)) q \<or>
      contains q (normalize (city i)) \<or> contains (normalize (city i)) q \<or>
      normalize (city i) = q)"

section \<open>Properties of the normalizer\<close>

declare collapse_spaces.simps [simp del]

lemma collapse_no_double: "\<not> contains [32, 32] (collapse_spaces t)"
  by (induction t rule: collapse_spaces.induct) (subst collapse_spaces.simps, simp)

lemma collapse_fix: "\<not> contains [32, 32] t \<Longrightarrow> collapse_spaces t = t"
  by (subst collapse_spaces.simps) simp

lemma set_replace: "set (replace old new s) \<subseteq> set new \<union> set s"
proof (induction old new s rule: replace.induct)
  case (1 old new)
  then show ?case by auto
next
  case (2 old new c cs)
  have d: "set (drop (length old) (c # cs)) \<subseteq> set (c # cs)"
    by (rule set_drop_subset)
  show ?case
  proof (cases "old = []")
    case True
    with 2 show ?thesis by auto
  next
    case False
    note ne = this
    show ?thesis
    proof (cases "take (length old) (c # cs) = old")
      case True
      with ne "2.IH"(2) d show ?thesis
        by (simp del: drop_Suc_Cons) blast
    next
      case False
      with ne "2.IH"(3) show ?thesis
        by (simp del: drop_Suc_Cons) blast
    qed
  qed
qed

lemma set_collapse: "set (collapse_spaces t) \<subseteq> insert 32 (set t)"
proof (induction t rule: collapse_spaces.induct)
  case (1 t)
  show ?case
  proof (cases "contains [32, 32] t")
    case True
    with 1 set_replace [of "[32, 32]" "[32]" t] show ?thesis
      by (subst collapse_spaces.simps) auto
  next
    case False
    then show ?thesis by (subst collapse_spaces.simps) auto
  qed
qed

lemma contains_set: "contains a s \<Longrightarrow> set a \<subseteq> set s"
proof (induction s)
  case Nil
  then show ?case by simp
next
  case (Cons c cs)
  from Cons.prems have "take (length a) (c # cs) = a \<or> contains a cs" by simp
  then show ?case
  proof
    assume "take (length a) (c # cs) = a"
    then have "set a = set (take (length a) (c # cs))" by simp
    also have "\<dots> \<subseteq> set (c # cs)" by (rule set_take_subset)
    finally show ?thesis .
  next
    assume "contains a cs"
    with Cons.IH show ?thesis by auto
  qed
qed

lemma set_collapse_subset: "set (collapse_spaces t) \<subseteq> set t"
proof (induction t rule: collapse_spaces.induct)
  case (1 t)
  show ?case
  proof (cases "contains [32, 32] t")
    case True
    from contains_set [OF True] have "32 \<in> set t" by simp
    with set_replace [of "[32, 32]" "[32]" t]
    have "set (replace [32, 32] [32] t) \<subseteq> set t" by auto
    with "1.IH" [OF True] True show ?thesis
      by (subst collapse_spaces.simps) auto
  next
    case False
    then show ?thesis by (subst collapse_spaces.simps) simp
  qed
qed

lemma lower_cp_idem: "lower_cp (lower_cp c) = lower_cp c"
  unfolding lower_cp_def by (simp split: if_splits) presburger

lemma isspace_lower_cp: "isspace (lower_cp c) = isspace c"
  by (auto simp: lower_cp_def isspace_def)

lemma lower_ends:
  "s \<noteq> [] \<Longrightarrow> \<not> isspace (hd s) \<Longrightarrow> \<not> isspace (last s) \<Longrightarrow>
   lower s \<noteq> [] \<and> \<not> isspace (hd (lower s)) \<and> \<not> isspace (last (lower s))"
  by (simp add: lower_def hd_map last_map isspace_lower_cp)

lemma lower_fixed: "set t \<subseteq> set (lower s) \<Longrightarrow> lower t = t"
proof -
  assume sub: "set t \<subseteq> set (lower s)"
  have "lower_cp c = c" if "c \<in> set t" for c
  proof -
    from that sub obtain d where "c = lower_cp d" by (auto simp: lower_def)
    then show ?thesis by (simp add: lower_cp_idem)
  qed
  then show ?thesis by (simp add: lower_def map_idI)
qed

lemma strip_Nil: "strip [] = []"
  by (simp add: strip_def)

lemma strip_ends:
  assumes "strip s \<noteq> []"
  shows "\<not> isspace (hd (strip s)) \<and> \<not> isspace (last (strip s))"
proof -
  let ?ys = "dropWhile isspace s"
  let ?zs = "dropWhile isspace (rev ?ys)"
  from assms have zs: "?zs \<noteq> []" by (simp add: strip_def)
  have ys: "?ys \<noteq> []"
  proof
    assume "?ys = []"
    then have "?zs = []" by (simp only: rev.simps dropWhile.simps)
    with zs show False by contradiction
  qed
  have "last (strip s) = hd ?zs"
    using zs by (simp add: strip_def last_rev)
  moreover have "\<not> isspace (hd ?zs)"
    using zs by (rule hd_dropWhile)
  moreover have "hd (strip s) = last ?zs"
    using zs by (simp add: strip_def hd_rev)
  moreover have "last ?zs = last (rev ?ys)"
    using zs by (metis append_Nil2 last_appendR takeWhile_dropWhile_id)
  moreover have "last (rev ?ys) = hd ?ys"
    using ys by (simp add: last_rev)
  moreover have "\<not> isspace (hd ?ys)"
    using ys by (rule hd_dropWhile)
  ultimately show ?thesis by simp
qed

lemma strip_id:
  assumes "r = [] \<or> (\<not> isspace (hd r) \<and> \<not> isspace (last r))"
  shows "strip r = r"
proof (cases r)
  case Nil
  then show ?thesis by (simp add: strip_def)
next
  case (Cons c cs)
  with assms have h: "\<not> isspace (hd r)" and l: "\<not> isspace (last r)" by auto
  from Cons h have 1: "dropWhile isspace r = r" by simp
  from Cons have "rev r \<noteq> []" by simp
  then obtain d ds where rv: "rev r = d # ds" by (cases "rev r") auto
  have "hd (rev r) = last r" by (rule hd_rev)
  with l have "\<not> isspace (hd (rev r))" by simp
  with rv have "dropWhile isspace (rev r) = rev r" by simp
  with 1 show ?thesis by (simp add: strip_def)
qed


lemma squeeze_Nil: "replace [32, 32] [32] [] = []"
  by simp

lemma squeeze_hit: "replace [32, 32] [32] (32 # 32 # xs) = 32 # replace [32, 32] [32] xs"
  by simp

lemma squeeze_miss:
  "c \<noteq> 32 \<or> xs = [] \<or> hd xs \<noteq> 32 \<Longrightarrow>
   replace [32, 32] [32] (c # xs) = c # replace [32, 32] [32] xs"
  by (cases xs) auto

lemma squeeze_hd:
  "s \<noteq> [] \<Longrightarrow> hd s \<noteq> 32 \<Longrightarrow>
   replace [32, 32] [32] s \<noteq> [] \<and> hd (replace [32, 32] [32] s) = hd s"
  by (cases s) (simp_all add: squeeze_miss del: replace.simps)

lemma squeeze_last:
  "s \<noteq> [] \<Longrightarrow> last s \<noteq> 32 \<Longrightarrow>
   replace [32, 32] [32] s \<noteq> [] \<and> last (replace [32, 32] [32] s) = last s"
proof (induction s rule: induct_list012)
  case 1
  then show ?case by simp
next
  case (2 x)
  then show ?case by simp
next
  case (3 x y zs)
  show ?case
  proof (cases "x = 32 \<and> y = 32")
    case True
    with "3.prems" have "zs \<noteq> []" "last zs \<noteq> 32" by (auto split: if_splits)
    with "3.IH"(1) True show ?thesis
      by (simp add: squeeze_hit del: replace.simps)
  next
    case False
    then have "replace [32, 32] [32] (x # y # zs) = x # replace [32, 32] [32] (y # zs)"
      by (intro squeeze_miss) auto
    moreover from "3.prems" "3.IH"(2)
    have "replace [32, 32] [32] (y # zs) \<noteq> [] \<and>
          last (replace [32, 32] [32] (y # zs)) = last (y # zs)"
      by simp
    ultimately show ?thesis by simp
  qed
qed

lemma isspace_32: "isspace 32"
  by (simp add: isspace_def)

lemma collapse_ends:
  "s \<noteq> [] \<Longrightarrow> \<not> isspace (hd s) \<Longrightarrow> \<not> isspace (last s) \<Longrightarrow>
   collapse_spaces s \<noteq> [] \<and> hd (collapse_spaces s) = hd s \<and>
   last (collapse_spaces s) = last s"
proof (induction s rule: collapse_spaces.induct)
  case (1 t)
  show ?case
  proof (cases "contains [32, 32] t")
    case True
    from "1.prems" isspace_32 have ne: "hd t \<noteq> 32" "last t \<noteq> 32" by auto
    from squeeze_hd [OF "1.prems"(1) ne(1)] squeeze_last [OF "1.prems"(1) ne(2)]
    have r: "replace [32, 32] [32] t \<noteq> []"
      "hd (replace [32, 32] [32] t) = hd t" "last (replace [32, 32] [32] t) = last t"
      by simp_all
    with "1.IH" [OF True] "1.prems" True show ?thesis
      by (subst (1 2 3) collapse_spaces.simps) simp
  next
    case False
    with "1.prems" show ?thesis
      by (subst (1 2 3) collapse_spaces.simps) simp
  qed
qed

text \<open>
  Claim C9: \<open>normalize\<close> is idempotent. For every input (a string or a missing
  value), normalizing the result of \<open>normalize\<close> again gives the same string. The
  method \<open>str.lower()\<close> enters through two of its properties, which hold for every
  string: a string that does not begin or end with whitespace is lowered to a string
  that does not either, and is not made empty (every code point is lowered to one
  code point or more, none of them whitespace unless the code point is); and a
  string made of code points that occur in a lowered string is left as it is (these
  code points have no other lower case, and the capital sigma, the one code point
  whose lower case depends on its neighbours, is not among them).
\<close>

theorem normalize_idempotent:
  assumes ends: "\<And>s. s \<noteq> [] \<Longrightarrow> \<not> isspace (hd s) \<Longrightarrow> \<not> isspace (last s) \<Longrightarrow>
      str_lower s \<noteq> [] \<and> \<not> isspace (hd (str_lower s)) \<and> \<not> isspace (last (str_lower s))"
    and fixed: "\<And>s t. set t \<subseteq> set (str_lower s) \<Longrightarrow> str_lower t = t"
  shows "normalize_with str_lower (Some (normalize_with str_lower x)) =
     normalize_with str_lower x"
proof -
  have empty: "str_lower [] = []"
    by (rule fixed [of "[]" "[]"]) simp
  show ?thesis
  proof (cases x)
    case None
    then show ?thesis
      by (simp add: normalize_with_def strip_Nil empty collapse_fix)
  next
    case (Some s)
    let ?l = "str_lower (strip s)"
    let ?r = "collapse_spaces ?l"
    have st: "strip ?r = ?r"
    proof (cases "strip s = []")
      case True
      then have "?r = []" by (simp add: empty collapse_fix)
      then show ?thesis by (simp only: strip_Nil)
    next
      case False
      from strip_ends [OF False] ends [OF False]
      have l: "?l \<noteq> []" "\<not> isspace (hd ?l)" "\<not> isspace (last ?l)"
        by simp_all
      from collapse_ends [OF l]
      have "?r \<noteq> [] \<and> \<not> isspace (hd ?r) \<and> \<not> isspace (last ?r)"
        using l by simp
      then show ?thesis by (intro strip_id) simp
    qed
    have lw: "str_lower ?r = ?r"
      by (rule fixed [of ?r "strip s"]) (rule set_collapse_subset)
    have "collapse_spaces ?r = ?r"
      by (rule collapse_fix) (rule collapse_no_double)
    with st lw Some show ?thesis
      by (simp add: normalize_with_def)
  qed
qed

theorem normalize_idempotent_witness:
  "normalize_with lower (Some (normalize_with lower (Some (ascii ''  PRIME    Park  '')))) =
     normalize_with lower (Some (ascii ''  PRIME    Park  '')) \<and>
   normalize_with lower (Some (ascii ''  PRIME    Park  '')) = ascii ''prime park''"
proof -
  have ends: "\<And>s. s \<noteq> [] \<Longrightarrow> \<not> isspace (hd s) \<Longrightarrow> \<not> isspace (last s) \<Longrightarrow>
      lower s \<noteq> [] \<and> \<not> isspace (hd (lower s)) \<and> \<not> isspace (last (lower s))"
    by (rule lower_ends)
  have fixed: "\<And>s t. set t \<subseteq> set (lower s) \<Longrightarrow> lower t = t"
    by (rule lower_fixed)
  have ev: "normalize_with lower (Some (ascii ''  PRIME    Park  '')) = ascii ''prime park''"
    by (simp add: normalize_with_def strip_def isspace_def lower_def lower_cp_def ascii_def
        collapse_spaces.simps)
  from normalize_idempotent [of lower "Some (ascii ''  PRIME    Park  '')", OF ends fixed] ev
  show ?thesis by simp
qed

section \<open>Evaluation rules\<close>

text \<open>The defining equations by which the simplifier runs the model on a concrete input.\<close>

lemmas eval_strings = Let_def ascii_def isspace_def strip_def lower_cp_def lower_def
  normalize_def normalize_with_def collapse_spaces.simps table_def table_get_def transliterate_ru_to_en_def
  normalize_for_search_def

lemmas eval_matcher = apply_aliases_def ALIASES_def find_best_match_def tier_exact_def
  tier_contains_def tier_reverse_def extractOne_def enumerate_eq_zip

lemmas eval_data = search_brokers_def find_brokers_def load_data_def required_def
  col_broker_def col_date_def col_object_def col_status_def rows_in_period_def
  minus_days_def parse_date_def dt_le_def unique_def dropna_def List.map_filter_simps
  unique_brokers_def broker_column_is_text_def brokers_of_def DAYS_def get_synonyms_def
  SYNONYMS_def

section \<open>Properties of the alias expander\<close>

lemma ALIASES_keys_distinct: "distinct (map fst ALIASES)"
  by (simp add: ALIASES_def ascii_def)

lemma alias_loop_prefix: "\<exists>ys. alias_loop qn tbl vs = vs @ ys"
proof (induction qn tbl vs rule: alias_loop.induct)
  case (1 qn vs)
  then show ?case by simp
next
  case (2 qn a r rest vs)
  then show ?case by (auto simp: Let_def)
qed

lemma alias_loop_distinct: "distinct vs \<Longrightarrow> distinct (alias_loop qn tbl vs)"
  by (induction qn tbl vs rule: alias_loop.induct) (auto simp: Let_def)

lemma apply_aliases_first:
  "apply_aliases query \<noteq> [] \<and> hd (apply_aliases query) = normalize (Some query)"
proof -
  let ?qn = "normalize (Some query)"
  obtain vs where vs: "apply_aliases query = alias_loop ?qn ALIASES (?qn # vs)"
    by (cases "map_of ALIASES ?qn") (auto simp: apply_aliases_def Let_def)
  from alias_loop_prefix [of ?qn ALIASES "?qn # vs"] obtain ys
    where "alias_loop ?qn ALIASES (?qn # vs) = (?qn # vs) @ ys" by blast
  with vs show ?thesis by simp
qed

lemma apply_aliases_distinct_iff:
  "distinct (apply_aliases query) \<longleftrightarrow>
   (case map_of ALIASES (normalize (Some query)) of
      None \<Rightarrow> True
    | Some replacement \<Rightarrow> normalize (Some replacement) \<noteq> normalize (Some query))"
proof (cases "map_of ALIASES (normalize (Some query))")
  case None
  then show ?thesis
    by (simp add: apply_aliases_def Let_def alias_loop_distinct)
next
  case (Some r)
  let ?qn = "normalize (Some query)"
  let ?rn = "normalize (Some r)"
  from Some have a: "apply_aliases query = alias_loop ?qn ALIASES [?qn, ?rn]"
    by (simp add: apply_aliases_def Let_def)
  show ?thesis
  proof (cases "?rn = ?qn")
    case True
    from alias_loop_prefix [of ?qn ALIASES "[?qn, ?rn]"] obtain ys
      where "alias_loop ?qn ALIASES [?qn, ?rn] = [?qn, ?rn] @ ys" by blast
    with a True Some show ?thesis by simp
  next
    case False
    then have "distinct [?qn, ?rn]" by auto
    then have "distinct (alias_loop ?qn ALIASES [?qn, ?rn])" by (rule alias_loop_distinct)
    with a False Some show ?thesis by simp
  qed
qed

text \<open>
  Claim C7, at the query that the alias table maps to itself: the dictionary holds the
  entry from U+0430 U+0440 U+0442 U+0445 U+0430 U+0443 U+0441 (transliterated
  \<open>arthaus\<close>) to the same string, and \<open>apply_aliases\<close> appends the replacement of an
  exact match without looking for it among the variants. The result holds the
  normalized query twice; it is not free of duplicates.
\<close>

theorem apply_aliases_duplicate:
  "apply_aliases [1072, 1088, 1090, 1093, 1072, 1091, 1089] =
     [[1072, 1088, 1090, 1093, 1072, 1091, 1089], [1072, 1088, 1090, 1093, 1072, 1091, 1089]] \<and>
   \<not> distinct (apply_aliases [1072, 1088, 1090, 1093, 1072, 1091, 1089])"
proof -
  have "apply_aliases [1072, 1088, 1090, 1093, 1072, 1091, 1089] =
     [[1072, 1088, 1090, 1093, 1072, 1091, 1089], [1072, 1088, 1090, 1093, 1072, 1091, 1089]]"
    by (simp add: eval_strings eval_matcher)
  then show ?thesis by simp
qed

section \<open>Properties of the matcher\<close>

lemma find_enumerate:
  "(\<And>i. i < length xs \<Longrightarrow> Q (n + i) = R (xs ! i)) \<Longrightarrow>
   map_option snd (find (\<lambda>(i, x). Q i) (enumerate n xs)) = find R xs"
proof (induction xs arbitrary: n)
  case Nil
  then show ?case by simp
next
  case (Cons x xs)
  from Cons.prems [of 0] have h: "Q n = R x" by simp
  have "Q (Suc n + i) = R (xs ! i)" if "i < length xs" for i
    using Cons.prems [of "Suc i"] that by simp
  then have "map_option snd (find (\<lambda>(i, x). Q i) (enumerate (Suc n) xs)) = find R xs"
    by (rule Cons.IH)
  with h show ?case by simp
qed

lemma tier_exact_find:
  "tier_exact v (normalize_for_search v) objects
     (map (\<lambda>obj. normalize (Some obj)) objects) (map normalize_for_search objects) =
   find (exact_hit v) objects"
  unfolding tier_exact_def
  by (rule find_enumerate) (simp add: exact_hit_def)

lemma tier_contains_find:
  "tier_contains v (normalize_for_search v) objects
     (map (\<lambda>obj. normalize (Some obj)) objects) (map normalize_for_search objects) =
   find (forward_hit v) objects"
  unfolding tier_contains_def
  by (rule find_enumerate) (simp add: forward_hit_def)

lemma tier_reverse_find:
  "tier_reverse v (normalize_for_search v) objects
     (map (\<lambda>obj. normalize (Some obj)) objects) (map normalize_for_search objects) =
   find (reverse_hit v) objects"
  unfolding tier_reverse_def
  by (rule find_enumerate) (simp add: reverse_hit_def)

lemma cascade_loop_spec:
  "cascade_loop objects (map (\<lambda>obj. normalize (Some obj)) objects)
     (map normalize_for_search objects) variants =
   (case List.map_filter (variant_tiers objects) variants of
      (c, score) # _ \<Rightarrow> Some (c, score, True)
    | [] \<Rightarrow> None)"
proof (induction variants)
  case Nil
  then show ?case by (simp add: List.map_filter_simps)
next
  case (Cons v vs)
  then show ?case
    by (simp add: List.map_filter_simps Let_def tier_exact_find tier_contains_find
        tier_reverse_find variant_tiers_def split: option.splits)
qed

lemma find_best_match_unfold:
  "find_best_match scorer query objects =
     (if objects = [] then (None, 0, False)
      else resolve scorer (apply_aliases query) objects)"
  by (simp add: find_best_match_def resolve_def fuzzy_tier_def Let_def cascade_loop_spec
      split: list.splits option.splits)

text \<open>
  Claim C1: for every query and every candidate list that is not empty,
  \<open>find_best_match\<close> computes the cascade of the specification. The alias variants are
  tried in the order of \<open>apply_aliases\<close>; each variant goes through tier 1, tier 2 and
  tier 3, the first candidate of the pool winning inside a tier, before the next
  variant is tried; the fuzzy tier runs, once and over all variants, only when the
  three tiers found nothing for every variant.
\<close>

theorem find_best_match_cascade:
  assumes "objects \<noteq> []"
  shows "find_best_match scorer query objects = resolve scorer (apply_aliases query) objects"
proof -
  let ?variants = "apply_aliases query"
  let ?hits = "List.map_filter (variant_tiers objects) ?variants"
  have loop: "cascade_loop objects (map (\<lambda>obj. normalize (Some obj)) objects)
      (map normalize_for_search objects) ?variants =
      (case ?hits of (c, score) # _ \<Rightarrow> Some (c, score, True) | [] \<Rightarrow> None)"
    by (rule cascade_loop_spec)
  show ?thesis
  proof (cases ?hits)
    case Nil
    with assms loop show ?thesis
      by (simp add: find_best_match_def resolve_def fuzzy_tier_def Let_def)
  next
    case (Cons hit rest)
    obtain c score where "hit = (c, score)" by (cases hit) auto
    with Cons assms loop show ?thesis
      by (simp add: find_best_match_def resolve_def Let_def)
  qed
qed

theorem find_best_match_cascade_witness:
  "find_best_match (\<lambda>a b. 0) [1050, 1072, 1085, 1072, 1083]
     [ascii ''Canal Front Residences 3'', ascii ''XYZ''] =
     (Some (ascii ''Canal Front Residences 3''), 95, True) \<and>
   resolve (\<lambda>a b. 0) (apply_aliases [1050, 1072, 1085, 1072, 1083])
     [ascii ''Canal Front Residences 3'', ascii ''XYZ''] =
     (Some (ascii ''Canal Front Residences 3''), 95, True)"
proof -
  let ?objects = "[ascii ''Canal Front Residences 3'', ascii ''XYZ'']"
  have ne: "?objects \<noteq> []" by simp
  have ev: "find_best_match (\<lambda>a b. 0) [1050, 1072, 1085, 1072, 1083] ?objects =
      (Some (ascii ''Canal Front Residences 3''), 95, True)"
    by (simp add: eval_strings eval_matcher)
  from find_best_match_cascade [OF ne, of "\<lambda>a b. 0" "[1050, 1072, 1085, 1072, 1083]"] ev
  show ?thesis by simp
qed

lemma extract_loop_result:
  "extract_loop sc q cutoff (enumerate n xs) best = Some (m, s, i) \<Longrightarrow>
   best = Some (m, s, i) \<or>
   (n \<le> i \<and> i < n + length xs \<and> cutoff \<le> s \<and> s = sc q (xs ! (i - n)) \<and> m = xs ! (i - n))"
proof (induction xs arbitrary: n best)
  case Nil
  then show ?case by simp
next
  case (Cons x xs)
  let ?score = "sc q x"
  show ?case
  proof (cases "cutoff \<le> ?score \<and> (case best of None \<Rightarrow> True | Some (_, b, _) \<Rightarrow> b < ?score)")
    case True
    with Cons.prems
    have "extract_loop sc q cutoff (enumerate (Suc n) xs) (Some (x, ?score, n)) = Some (m, s, i)"
      by (simp add: Let_def)
    from Cons.IH [OF this] True show ?thesis
      by (auto simp: nth_Cons')
  next
    case False
    with Cons.prems
    have "extract_loop sc q cutoff (enumerate (Suc n) xs) best = Some (m, s, i)"
      by (simp add: Let_def)
    from Cons.IH [OF this] show ?thesis
      by (auto simp: nth_Cons')
  qed
qed

lemma extractOne_result:
  "extractOne sc q xs cutoff = Some (m, s, i) \<Longrightarrow>
   i < length xs \<and> cutoff \<le> s \<and> s = sc q (xs ! i) \<and> m = xs ! i"
  unfolding extractOne_def
  by (drule extract_loop_result) simp

lemma fuzzy_loop_result:
  "fuzzy_loop sc ot vs best bs = Some (m, s, i) \<Longrightarrow>
   best = Some (m, s, i) \<or>
   (i < length ot \<and> 75 \<le> s \<and> (\<exists>v. v \<in> set vs \<and> s = sc (normalize_for_search v) (ot ! i)))"
proof (induction vs arbitrary: best bs)
  case Nil
  then show ?case by simp
next
  case (Cons v vs)
  show ?case
  proof (cases "extractOne sc (normalize_for_search v) ot 75")
    case None
    with Cons.prems have "fuzzy_loop sc ot vs best bs = Some (m, s, i)"
      by (simp add: Let_def)
    from Cons.IH [OF this] show ?thesis by auto
  next
    case (Some r)
    obtain m' s' i' where r: "r = (m', s', i')" by (cases r) auto
    from extractOne_result [of sc "normalize_for_search v" ot 75 m' s' i'] Some r
    have e: "i' < length ot" "75 \<le> s'" "s' = sc (normalize_for_search v) (ot ! i')"
      by simp_all
    show ?thesis
    proof (cases "bs < s'")
      case True
      with Cons.prems Some r
      have "fuzzy_loop sc ot vs (Some (m', s', i')) s' = Some (m, s, i)"
        by (simp add: Let_def)
      from Cons.IH [OF this] e show ?thesis by auto
    next
      case False
      with Cons.prems Some r have "fuzzy_loop sc ot vs best bs = Some (m, s, i)"
        by (simp add: Let_def)
      from Cons.IH [OF this] show ?thesis by auto
    qed
  qed
qed

lemma fuzzy_tier_cases:
  "fuzzy_tier sc objects vs = (None, 0, False) \<or>
   (\<exists>i s v. i < length objects \<and> v \<in> set vs \<and> 75 \<le> s \<and>
      s = sc (normalize_for_search v) (normalize_for_search (objects ! i)) \<and>
      fuzzy_tier sc objects vs = (Some (objects ! i), s, False))"
proof (cases "fuzzy_loop sc (map normalize_for_search objects) vs None 0")
  case None
  then show ?thesis by (simp add: fuzzy_tier_def)
next
  case (Some r)
  obtain m s i where r: "r = (m, s, i)" by (cases r) auto
  from fuzzy_loop_result [of sc "map normalize_for_search objects" vs None 0 m s i] Some r
  obtain v where "i < length objects" "75 \<le> s" "v \<in> set vs"
    "s = sc (normalize_for_search v) (normalize_for_search (objects ! i))"
    by auto
  with Some r show ?thesis
    by (auto simp: fuzzy_tier_def)
qed

lemma find_Some_set: "find P xs = Some x \<Longrightarrow> x \<in> set xs \<and> P x"
  by (auto simp: find_Some_iff)

lemma variant_tiers_Some:
  "variant_tiers cands v = Some (c, s) \<Longrightarrow>
   c \<in> set cands \<and>
   (s = 100 \<and> exact_hit v c \<or> s = 95 \<and> forward_hit v c \<or> s = 90 \<and> reverse_hit v c)"
  by (auto simp: variant_tiers_def split: option.splits dest: find_Some_set)

lemma variant_tiers_None:
  "variant_tiers cands v = None \<longleftrightarrow>
   (\<forall>c \<in> set cands. \<not> exact_hit v c \<and> \<not> forward_hit v c \<and> \<not> reverse_hit v c)"
  by (auto simp: variant_tiers_def find_None_iff split: option.splits dest: find_Some_set)

lemma map_filter_Nil:
  "List.map_filter f xs = [] \<longleftrightarrow> (\<forall>x \<in> set xs. f x = None)"
  by (induction xs) (auto simp: List.map_filter_simps split: option.splits)

lemma map_filter_Cons:
  "List.map_filter f xs = y # ys \<Longrightarrow> \<exists>x. x \<in> set xs \<and> f x = Some y"
  by (induction xs) (auto simp: List.map_filter_simps split: option.splits)


lemma resolve_cases:
  "(\<exists>v c score. v \<in> set variants \<and> variant_tiers candidates v = Some (c, score) \<and>
      resolve scorer variants candidates = (Some c, score, True)) \<or>
   ((\<forall>v \<in> set variants. variant_tiers candidates v = None) \<and>
      resolve scorer variants candidates = fuzzy_tier scorer candidates variants)"
proof (cases "List.map_filter (variant_tiers candidates) variants")
  case Nil
  then have "\<forall>v \<in> set variants. variant_tiers candidates v = None"
    by (simp only: map_filter_Nil)
  moreover from Nil have "resolve scorer variants candidates = fuzzy_tier scorer candidates variants"
    by (simp add: resolve_def)
  ultimately show ?thesis by blast
next
  case (Cons r rs)
  obtain c score where r: "r = (c, score)" by (cases r) auto
  from map_filter_Cons [OF Cons] r
  obtain v where "v \<in> set variants" "variant_tiers candidates v = Some (c, score)"
    by auto
  with Cons r show ?thesis
    by (auto simp: resolve_def)
qed

text \<open>
  Claim C2: the flag \<open>exact\<close> of the result is true exactly when some alias variant
  and some candidate satisfy one of the first three tiers; then the score is the
  constant of the tier that matched (100 exact, 95 forward containment, 90 reverse
  containment). Every result with \<open>exact\<close> false, so every match of the fuzzy
  fallback, has a score below 100, for a scorer with values up to 100 that gives 100
  to equal strings only.
\<close>

theorem find_best_match_exact_flag:
  assumes le: "\<And>a b. scorer a b \<le> 100"
    and eq: "\<And>a b. scorer a b = 100 \<Longrightarrow> a = b"
  shows "case find_best_match scorer query objects of
           (m, score, exact) \<Rightarrow>
             (exact \<longleftrightarrow>
                (\<exists>v c. v \<in> set (apply_aliases query) \<and> c \<in> set objects \<and>
                   (exact_hit v c \<or> forward_hit v c \<or> reverse_hit v c))) \<and>
             (exact \<longrightarrow>
                (\<exists>v c. v \<in> set (apply_aliases query) \<and> m = Some c \<and>
                   variant_tiers objects v = Some (c, score) \<and>
                   (score = 100 \<and> exact_hit v c \<or> score = 95 \<and> forward_hit v c \<or>
                    score = 90 \<and> reverse_hit v c))) \<and>
             (\<not> exact \<longrightarrow> score < 100)"
proof (cases "objects = []")
  case True
  then show ?thesis by (simp add: find_best_match_unfold)
next
  case False
  let ?vs = "apply_aliases query"
  from False have fb: "find_best_match scorer query objects = resolve scorer ?vs objects"
    by (simp add: find_best_match_unfold)
  from resolve_cases [of ?vs objects scorer] show ?thesis
  proof (elim disjE exE conjE)
    fix v c score
    assume v: "v \<in> set ?vs" and t: "variant_tiers objects v = Some (c, score)"
      and r: "resolve scorer ?vs objects = (Some c, score, True)"
    from variant_tiers_Some [OF t] v t r fb show ?thesis
      by auto
  next
    assume none: "\<forall>v \<in> set ?vs. variant_tiers objects v = None"
      and r: "resolve scorer ?vs objects = fuzzy_tier scorer objects ?vs"
    from none have nohit: "\<not> exact_hit v c" "\<not> forward_hit v c" "\<not> reverse_hit v c"
      if "v \<in> set ?vs" "c \<in> set objects" for v c
      using that by (auto simp: variant_tiers_None)
    from fuzzy_tier_cases [of scorer objects ?vs] show ?thesis
    proof (elim disjE exE conjE)
      assume "fuzzy_tier scorer objects ?vs = (None, 0, False)"
      with r fb nohit show ?thesis by auto
    next
      fix i s v
      assume i: "i < length objects" and v: "v \<in> set ?vs"
        and s: "s = scorer (normalize_for_search v) (normalize_for_search (objects ! i))"
        and f: "fuzzy_tier scorer objects ?vs = (Some (objects ! i), s, False)"
      from i have mem: "objects ! i \<in> set objects" by simp
      have "s \<noteq> 100"
      proof
        assume "s = 100"
        with s eq have "normalize_for_search v = normalize_for_search (objects ! i)"
          by simp
        then have "exact_hit v (objects ! i)" by (simp add: exact_hit_def)
        with nohit(1) [OF v mem] show False by contradiction
      qed
      moreover from s le have "s \<le> 100" by simp
      ultimately have "s < 100" by simp
      with r fb f nohit show ?thesis by auto
    qed
  qed
qed

theorem find_best_match_exact_flag_witness:
  "fst (find_best_match (\<lambda>a b. if a = b then 100 else 80) (ascii ''prime-park'')
     [ascii ''Prime Park'']) = Some (ascii ''Prime Park'') \<and>
   \<not> snd (snd (find_best_match (\<lambda>a b. if a = b then 100 else 80) (ascii ''prime-park'')
     [ascii ''Prime Park''])) \<and>
   fst (snd (find_best_match (\<lambda>a b. if a = b then 100 else 80) (ascii ''prime-park'')
     [ascii ''Prime Park''])) < 100"
proof -
  let ?sc = "\<lambda>a b :: ustr. if a = b then 100 else 80 :: rat"
  let ?r = "find_best_match ?sc (ascii ''prime-park'') [ascii ''Prime Park'']"
  have le: "\<And>a b. ?sc a b \<le> 100" by simp
  have eq: "\<And>a b. ?sc a b = 100 \<Longrightarrow> a = b" by (simp split: if_splits)
  have ev: "fst ?r = Some (ascii ''Prime Park'') \<and> \<not> snd (snd ?r)"
    by (simp add: eval_strings eval_matcher)
  from find_best_match_exact_flag [of ?sc "ascii ''prime-park''" "[ascii ''Prime Park'']", OF le eq] ev
  show ?thesis by (auto split: prod.splits)
qed

text \<open>
  Claim C10: the result of \<open>find_best_match\<close> is \<open>(None, 0, False)\<close>, or its first
  component is an element of the candidate list, as it stands in that list, and its
  score is positive.
\<close>

theorem find_best_match_verbatim:
  "find_best_match scorer query objects = (None, 0, False) \<or>
   (\<exists>c score exact. find_best_match scorer query objects = (Some c, score, exact) \<and>
      c \<in> set objects \<and> 0 < score)"
proof (cases "objects = []")
  case True
  then show ?thesis by (simp add: find_best_match_unfold)
next
  case False
  let ?vs = "apply_aliases query"
  from False have fb: "find_best_match scorer query objects = resolve scorer ?vs objects"
    by (simp add: find_best_match_unfold)
  from resolve_cases [of ?vs objects scorer] show ?thesis
  proof (elim disjE exE conjE)
    fix v c score
    assume t: "variant_tiers objects v = Some (c, score)"
      and r: "resolve scorer ?vs objects = (Some c, score, True)"
    from variant_tiers_Some [OF t] have "c \<in> set objects" "0 < score" by auto
    with r fb show ?thesis by auto
  next
    assume r: "resolve scorer ?vs objects = fuzzy_tier scorer objects ?vs"
    from fuzzy_tier_cases [of scorer objects ?vs] show ?thesis
    proof (elim disjE exE conjE)
      assume "fuzzy_tier scorer objects ?vs = (None, 0, False)"
      with r fb show ?thesis by simp
    next
      fix i s v
      assume i: "i < length objects" and s: "75 \<le> s"
        and f: "fuzzy_tier scorer objects ?vs = (Some (objects ! i), s, False)"
      from i have "objects ! i \<in> set objects" by simp
      moreover from s have "0 < s" by simp
      ultimately show ?thesis using r fb f by auto
    qed
  qed
qed

section \<open>Properties of the district index\<close>

lemma contains_refl: "contains a a"
  by (cases a) simp_all

lemma district_loop_filter:
  "district_loop q entries results =
   results @ map entry_of (filter (\<lambda>e. district_match q (snd e)) entries)"
proof (induction q entries results rule: district_loop.induct)
  case (1 q results)
  then show ?case by simp
next
  case (2 q obj_name i rest results)
  then show ?case
    by (auto simp: Let_def district_match_def entry_of_def contains_refl)
qed

text \<open>
  Claim C5, as amended: the district lookup returns, in the order of the reference
  file, the entries whose normalized district contains the normalized query or is
  contained in it, or whose normalized city contains the query (which covers a city
  equal to the query). A city that is only contained in a longer query does not
  match.
\<close>

theorem get_objects_by_district_matches:
  "get_objects_by_district file district_query =
   map entry_of
     (filter (\<lambda>e. district_match (normalize (Some district_query)) (snd e))
        (load_districts file))"
  by (simp add: get_objects_by_district_def district_loop_filter)

text \<open>
  Claim C5 as stated fails: for the query \<open>Dubai Hills\<close> and an entry of district
  \<open>Palm Jumeirah\<close> in the city \<open>Dubai\<close>, the city is contained in the query, so the
  stated condition holds, and the lookup returns nothing.
\<close>

theorem city_in_query_counterexample:
  "claimed_district_match (normalize (Some (ascii ''Dubai Hills'')))
     \<lparr>district = Some (ascii ''Palm Jumeirah''), city = Some (ascii ''Dubai''),
      country = Some (ascii ''UAE'')\<rparr> \<and>
   get_objects_by_district
     (Some [(ascii ''Atlantis'',
             \<lparr>district = Some (ascii ''Palm Jumeirah''), city = Some (ascii ''Dubai''),
              country = Some (ascii ''UAE'')\<rparr>)])
     (ascii ''Dubai Hills'') = []"
  by (simp add: eval_strings claimed_district_match_def get_objects_by_district_def
      load_districts_def)

section \<open>Properties of the data load\<close>

lemma check_columns_None: "check_columns req cols = None \<longleftrightarrow> set req \<subseteq> set cols"
  by (induction req) auto

lemma check_columns_Some:
  "check_columns req cols = Some c \<Longrightarrow> c \<in> set req \<and> c \<notin> set cols"
  by (induction req) (auto split: if_splits)

lemma apply_parse_date_Inl:
  "apply_parse_date strptime rs = Inl e \<Longrightarrow> e = TypeError \<or> e = StrptimeError"
proof (induction rs)
  case Nil
  then show ?case by simp
next
  case (Cons r rs)
  then show ?case
    by (auto simp: parse_date_def split: sum.splits option.splits)
qed

lemma rows_in_period_Inl:
  "rows_in_period strptime now days rs = Inl e \<Longrightarrow>
   e = OverflowError \<or> e = TypeError \<or> e = StrptimeError"
  by (auto simp: rows_in_period_def minus_days_def Let_def
      split: sum.splits if_splits dest: apply_parse_date_Inl)

lemma brokers_of_Inl: "brokers_of df rs = Inl e \<Longrightarrow> e = AttributeError"
  by (simp add: brokers_of_def split: if_splits)

lemma msg_no_data_differs: "msg_no_data \<noteq> msg_missing_column @ c"
  by (simp add: msg_no_data_def msg_missing_column_def)

lemma search_brokers_missing:
  "check_columns required (columns df) = Some col \<Longrightarrow>
   search_brokers strptime scorer (Some df) now query = Inr (Error (msg_missing_column @ col))"
  by (simp add: search_brokers_def load_data_def)

lemma find_brokers_missing:
  "check_columns required (columns df) = Some col \<Longrightarrow>
   find_brokers strptime re_compile (Some df) now object_query days match_mode exclude_status =
     Inl (ValueError (msg_missing_column @ col))"
  by (simp add: find_brokers_def)

lemma search_brokers_present:
  assumes "check_columns required (columns df) = None"
  shows "search_brokers strptime scorer (Some df) now query \<noteq>
     Inr (Error (msg_missing_column @ c))"
proof (cases "rows_in_period strptime now DAYS (rows df)")
  case (Inl e)
  with assms show ?thesis by (simp add: search_brokers_def load_data_def)
next
  case (Inr rs)
  obtain m score exact
    where f: "find_best_match scorer query (unique (dropna (map r_object rs))) = (m, score, exact)"
    by (cases "find_best_match scorer query (unique (dropna (map r_object rs)))") auto
  from assms Inr f show ?thesis
    by (cases m)
      (simp_all add: search_brokers_def load_data_def Let_def msg_no_data_differs
        split: sum.splits)
qed

lemma find_brokers_present:
  assumes "check_columns required (columns df) = None"
  shows "find_brokers strptime re_compile (Some df) now object_query days match_mode
     exclude_status \<noteq> Inl (ValueError m)"
proof (cases "rows_in_period strptime now days (rows df)")
  case (Inl e)
  from rows_in_period_Inl [OF Inl] have "e \<noteq> ValueError m" by auto
  with assms Inl show ?thesis by (simp add: find_brokers_def)
next
  case (Inr rs)
  have "e \<noteq> ValueError m" if "brokers_of df kept = Inl e" for kept e
    using brokers_of_Inl [OF that] by simp
  with assms Inr show ?thesis
    by (auto simp: find_brokers_def Let_def split: option.splits sum.splits)
qed

text \<open>
  Claim C8: when a required column (broker, date, object) is absent from the sheet,
  \<open>search_brokers\<close> returns the error message that names a required column that is
  absent, and \<open>find_brokers\<close> raises \<open>ValueError\<close> with that message, whatever the
  rows, the dates in them and the clock are: nothing is parsed or filtered before.
  When all required columns are there, neither that error nor that exception occurs.
\<close>

theorem missing_column_fatal:
  "(set required \<subseteq> set (columns df) \<longrightarrow>
      (\<forall>c. search_brokers strptime scorer (Some df) now query \<noteq>
            Inr (Error (msg_missing_column @ c))) \<and>
      (\<forall>m. find_brokers strptime re_compile (Some df) now object_query days match_mode
            exclude_status \<noteq> Inl (ValueError m))) \<and>
   (\<not> set required \<subseteq> set (columns df) \<longrightarrow>
      (\<exists>col. col \<in> set required \<and> col \<notin> set (columns df) \<and>
         search_brokers strptime scorer (Some df) now query =
           Inr (Error (msg_missing_column @ col)) \<and>
         find_brokers strptime re_compile (Some df) now object_query days match_mode
           exclude_status = Inl (ValueError (msg_missing_column @ col))))"
proof (intro conjI impI allI)
  fix c
  assume "set required \<subseteq> set (columns df)"
  then have "check_columns required (columns df) = None" by (simp add: check_columns_None)
  then show "search_brokers strptime scorer (Some df) now query \<noteq>
      Inr (Error (msg_missing_column @ c))"
    by (rule search_brokers_present)
next
  fix m
  assume "set required \<subseteq> set (columns df)"
  then have "check_columns required (columns df) = None" by (simp add: check_columns_None)
  then show "find_brokers strptime re_compile (Some df) now object_query days match_mode
      exclude_status \<noteq> Inl (ValueError m)"
    by (rule find_brokers_present)
next
  assume "\<not> set required \<subseteq> set (columns df)"
  then have "check_columns required (columns df) \<noteq> None" by (simp add: check_columns_None)
  then obtain col where col: "check_columns required (columns df) = Some col" by auto
  from check_columns_Some [OF col] search_brokers_missing [OF col] find_brokers_missing [OF col]
  show "\<exists>col. col \<in> set required \<and> col \<notin> set (columns df) \<and>
         search_brokers strptime scorer (Some df) now query =
           Inr (Error (msg_missing_column @ col)) \<and>
         find_brokers strptime re_compile (Some df) now object_query days match_mode
           exclude_status = Inl (ValueError (msg_missing_column @ col))"
    by blast
qed

theorem missing_column_fatal_witness:
  "search_brokers (\<lambda>s. None) (\<lambda>a b. 0)
     (Some \<lparr>columns = [col_broker, col_object],
            rows = [\<lparr>r_broker = Some (ascii ''Ivan''), r_date = None,
                     r_object = Some (ascii ''Prime Park''), r_status = None\<rparr>]\<rparr>)
     \<lparr>ordinal = 738946, micros = 0\<rparr> (ascii ''Prime Park'') =
     Inr (Error (msg_missing_column @ col_date)) \<and>
   find_brokers (\<lambda>s. None) (\<lambda>p. None)
     (Some \<lparr>columns = [col_broker, col_object],
            rows = [\<lparr>r_broker = Some (ascii ''Ivan''), r_date = None,
                     r_object = Some (ascii ''Prime Park''), r_status = None\<rparr>]\<rparr>)
     \<lparr>ordinal = 738946, micros = 0\<rparr> (ascii ''Prime Park'') 14 (ascii ''exact'') None =
     Inl (ValueError (msg_missing_column @ col_date)) \<and>
   search_brokers (\<lambda>s. None) (\<lambda>a b. 0)
     (Some \<lparr>columns = [col_broker, col_date, col_object], rows = []\<rparr>)
     \<lparr>ordinal = 738946, micros = 0\<rparr> (ascii ''Prime Park'') \<noteq>
     Inr (Error (msg_missing_column @ col_date))"
proof -
  let ?df = "\<lparr>columns = [col_broker, col_object],
            rows = [\<lparr>r_broker = Some (ascii ''Ivan''), r_date = None,
                     r_object = Some (ascii ''Prime Park''), r_status = None\<rparr>]\<rparr>"
  let ?ok = "\<lparr>columns = [col_broker, col_date, col_object], rows = []\<rparr>"
  let ?now = "\<lparr>ordinal = 738946, micros = 0\<rparr>"
  have absent: "\<not> set required \<subseteq> set (columns ?df)"
    by (simp add: required_def col_broker_def col_date_def col_object_def)
  have present: "set required \<subseteq> set (columns ?ok)"
    by (simp add: required_def)
  have col: "col \<in> set required \<Longrightarrow> col \<notin> set (columns ?df) \<Longrightarrow> col = col_date" for col
    by (auto simp: required_def)
  from missing_column_fatal [of ?df "\<lambda>s. None" "\<lambda>a b. 0" ?now "ascii ''Prime Park''"
      "\<lambda>p. None" "ascii ''Prime Park''" 14 "ascii ''exact''" None] absent col
  have 1: "search_brokers (\<lambda>s. None) (\<lambda>a b. 0) (Some ?df) ?now (ascii ''Prime Park'') =
      Inr (Error (msg_missing_column @ col_date))"
    and 2: "find_brokers (\<lambda>s. None) (\<lambda>p. None) (Some ?df) ?now (ascii ''Prime Park'') 14
      (ascii ''exact'') None = Inl (ValueError (msg_missing_column @ col_date))"
    by auto
  from missing_column_fatal [of ?ok "\<lambda>s. None" "\<lambda>a b. 0" ?now "ascii ''Prime Park''"
      "\<lambda>p. None" "ascii ''Prime Park''" 14 "ascii ''exact''" None] present
  have 3: "search_brokers (\<lambda>s. None) (\<lambda>a b. 0) (Some ?ok) ?now (ascii ''Prime Park'') \<noteq>
      Inr (Error (msg_missing_column @ col_date))"
    by blast
  from 1 2 3 show ?thesis by blast
qed

section \<open>Properties of the date filter\<close>

lemma apply_parse_date_Inr:
  "apply_parse_date strptime rs = Inr dated \<Longrightarrow>
   map fst dated = rs \<and>
   (\<forall>p \<in> set dated. \<exists>s d. r_date (fst p) = Some s \<and> strptime s = Some d \<and>
      snd p = \<lparr>ordinal = d, micros = 0\<rparr>)"
proof (induction rs arbitrary: dated)
  case Nil
  then show ?case by auto
next
  case (Cons r rs)
  from Cons.prems obtain t ds where t: "parse_date strptime (r_date r) = Inr t"
    and ds: "apply_parse_date strptime rs = Inr ds" and dated: "dated = (r, t) # ds"
    by (auto split: sum.splits)
  from t obtain s d where "r_date r = Some s" "strptime s = Some d"
    "t = \<lparr>ordinal = d, micros = 0\<rparr>"
    by (auto simp: parse_date_def split: option.splits)
  with Cons.IH [OF ds] dated show ?case by auto
qed

lemma dt_le_midnight:
  "dt_le (now\<lparr>ordinal := ordinal now - days\<rparr>) \<lparr>ordinal = d, micros = 0\<rparr> \<longleftrightarrow>
   ordinal now - days < d \<or> (d = ordinal now - days \<and> micros now = 0)"
  by (auto simp: dt_le_def)

text \<open>
  Claim C6, as amended: when the date filter returns, it keeps exactly the rows whose
  date is later than the day \<open>days\<close> days before the day of \<open>now\<close>, and the rows of
  that boundary day itself only if the time of day of \<open>now\<close> is midnight exactly: the
  comparison is \<open>>=\<close> between the row's date at midnight and \<open>now - days\<close>, which keeps
  the time of day of \<open>now\<close>. Rows of an older day are never kept.
\<close>

theorem rows_in_period_boundary:
  assumes "rows_in_period strptime now days rs = Inr kept"
  shows "r \<in> set kept \<longleftrightarrow>
     r \<in> set rs \<and>
     (\<exists>s d. r_date r = Some s \<and> strptime s = Some d \<and>
        (ordinal now - days < d \<or> (d = ordinal now - days \<and> micros now = 0)))"
proof -
  from assms obtain cutoff dated where c: "minus_days now days = Inr cutoff"
    and d: "apply_parse_date strptime rs = Inr dated"
    and k: "kept = map fst (filter (\<lambda>(r, d). dt_le cutoff d) dated)"
    by (auto simp: rows_in_period_def split: sum.splits)
  from c have cutoff: "cutoff = now\<lparr>ordinal := ordinal now - days\<rparr>"
    by (auto simp: minus_days_def Let_def split: if_splits)
  from apply_parse_date_Inr [OF d] have m: "map fst dated = rs"
    and p: "\<And>p. p \<in> set dated \<Longrightarrow> \<exists>s d. r_date (fst p) = Some s \<and> strptime s = Some d \<and>
      snd p = \<lparr>ordinal = d, micros = 0\<rparr>"
    by auto
  show ?thesis
  proof
    assume "r \<in> set kept"
    with k obtain t where in_d: "(r, t) \<in> set dated" and le: "dt_le cutoff t"
      by auto
    from p [OF in_d] obtain s d' where s: "r_date r = Some s" "strptime s = Some d'"
      "t = \<lparr>ordinal = d', micros = 0\<rparr>" by auto
    from in_d m have "r \<in> set rs" by force
    moreover from le s(3) cutoff
    have "ordinal now - days < d' \<or> (d' = ordinal now - days \<and> micros now = 0)"
      by (simp add: dt_le_midnight)
    ultimately show "r \<in> set rs \<and>
     (\<exists>s d. r_date r = Some s \<and> strptime s = Some d \<and>
        (ordinal now - days < d \<or> (d = ordinal now - days \<and> micros now = 0)))"
      using s by auto
  next
    assume a: "r \<in> set rs \<and>
     (\<exists>s d. r_date r = Some s \<and> strptime s = Some d \<and>
        (ordinal now - days < d \<or> (d = ordinal now - days \<and> micros now = 0)))"
    then obtain s d' where s: "r_date r = Some s" "strptime s = Some d'"
      and b: "ordinal now - days < d' \<or> (d' = ordinal now - days \<and> micros now = 0)"
      by auto
    from a m obtain t where in_d: "(r, t) \<in> set dated" by force
    from p [OF in_d] s have "t = \<lparr>ordinal = d', micros = 0\<rparr>" by auto
    with b cutoff have "dt_le cutoff t" by (simp add: dt_le_midnight)
    with in_d k show "r \<in> set kept" by force
  qed
qed

theorem rows_in_period_boundary_witness:
  "rows_in_period
     (\<lambda>s. if s = ascii ''01.01.2024'' then Some 738886
          else if s = ascii ''31.12.2023'' then Some 738885 else None)
     \<lparr>ordinal = 738946, micros = 0\<rparr> 60
     [\<lparr>r_broker = Some (ascii ''Ivan''), r_date = Some (ascii ''01.01.2024''),
       r_object = Some (ascii ''Prime Park''), r_status = None\<rparr>,
      \<lparr>r_broker = Some (ascii ''Petr''), r_date = Some (ascii ''31.12.2023''),
       r_object = Some (ascii ''Prime Park''), r_status = None\<rparr>] =
     Inr [\<lparr>r_broker = Some (ascii ''Ivan''), r_date = Some (ascii ''01.01.2024''),
           r_object = Some (ascii ''Prime Park''), r_status = None\<rparr>] \<and>
   \<lparr>r_broker = Some (ascii ''Ivan''), r_date = Some (ascii ''01.01.2024''),
    r_object = Some (ascii ''Prime Park''), r_status = None\<rparr> \<in>
   set [\<lparr>r_broker = Some (ascii ''Ivan''), r_date = Some (ascii ''01.01.2024''),
         r_object = Some (ascii ''Prime Park''), r_status = None\<rparr>]"
proof -
  let ?sp = "\<lambda>s. if s = ascii ''01.01.2024'' then Some (738886 :: int)
          else if s = ascii ''31.12.2023'' then Some 738885 else None"
  let ?r = "\<lparr>r_broker = Some (ascii ''Ivan''), r_date = Some (ascii ''01.01.2024''),
       r_object = Some (ascii ''Prime Park''), r_status = None\<rparr>"
  let ?old = "\<lparr>r_broker = Some (ascii ''Petr''), r_date = Some (ascii ''31.12.2023''),
       r_object = Some (ascii ''Prime Park''), r_status = None\<rparr>"
  have h: "rows_in_period ?sp \<lparr>ordinal = 738946, micros = 0\<rparr> 60 [?r, ?old] = Inr [?r]"
    by (simp add: eval_strings eval_data)
  from rows_in_period_boundary [OF h, of ?r] h show ?thesis by simp
qed

lemma rows_in_period_returns:
  "(\<exists>kept. rows_in_period strptime now days rs = Inr kept) \<longleftrightarrow>
   (1 \<le> ordinal now - days \<and> ordinal now - days \<le> 3652059) \<and>
   (\<forall>r \<in> set rs. \<exists>s d. r_date r = Some s \<and> strptime s = Some d)"
proof -
  have a: "(\<exists>dated. apply_parse_date strptime rs = Inr dated) \<longleftrightarrow>
      (\<forall>r \<in> set rs. \<exists>s d. r_date r = Some s \<and> strptime s = Some d)"
    by (induction rs) (auto simp: parse_date_def split: sum.splits option.splits)
  have "(\<exists>kept. rows_in_period strptime now days rs = Inr kept) \<longleftrightarrow>
      (1 \<le> ordinal now - days \<and> ordinal now - days \<le> 3652059) \<and>
      (\<exists>dated. apply_parse_date strptime rs = Inr dated)"
    by (auto simp: rows_in_period_def minus_days_def Let_def split: sum.splits)
  with a show ?thesis by simp
qed

text \<open>
  Claim C6 as stated fails: at noon of 1 March 2024 (day 738946) and with a period
  of 60 days, a row dated 1 January 2024 (day 738886), exactly 60 days before, is
  dropped by the filter, and \<open>find_brokers\<close> finds no broker for its object.
\<close>

theorem boundary_row_counterexample:
  "rows_in_period (\<lambda>s. if s = ascii ''01.01.2024'' then Some 738886 else None)
     \<lparr>ordinal = 738946, micros = 43200000000\<rparr> 60
     [\<lparr>r_broker = Some (ascii ''Ivan''), r_date = Some (ascii ''01.01.2024''),
       r_object = Some (ascii ''Prime Park''), r_status = None\<rparr>] = Inr [] \<and>
   find_brokers (\<lambda>s. if s = ascii ''01.01.2024'' then Some 738886 else None) (\<lambda>p. None)
     (Some \<lparr>columns = required,
            rows = [\<lparr>r_broker = Some (ascii ''Ivan''), r_date = Some (ascii ''01.01.2024''),
                     r_object = Some (ascii ''Prime Park''), r_status = None\<rparr>]\<rparr>)
     \<lparr>ordinal = 738946, micros = 43200000000\<rparr> (ascii ''Prime Park'') 60 (ascii ''exact'') None =
     Inr \<lparr>b_object = ascii ''Prime Park'', b_days = 60, b_match = ascii ''exact'',
          b_brokers = []\<rparr> \<and>
   (738946 :: int) - 60 = 738886"
  by (simp add: eval_strings eval_data)

section \<open>Properties of the aggregation\<close>

text \<open>
  Claim C4, at a sheet with two spellings of one object: the query and the first row
  name the object in Cyrillic (U+0428 U+0430 U+0433 U+0430 U+043B, transliterated
  \<open>Shagal\<close>), the second row in Latin small letters, \<open>shagal\<close>, which normalizes to
  the same string as the member \<open>Shagal\<close> of the synonym group. \<open>search_brokers\<close>
  compares the name of a row with the members of the group as they are written, so
  the second row and its broker are left out.
\<close>

theorem synonym_row_dropped:
  "search_brokers (\<lambda>s. Some 738917) (\<lambda>a b. 0)
     (Some \<lparr>columns = required,
            rows = [\<lparr>r_broker = Some (ascii ''Ivan''), r_date = Some (ascii ''01.02.2024''),
                     r_object = Some [1064, 1072, 1075, 1072, 1083], r_status = None\<rparr>,
                    \<lparr>r_broker = Some (ascii ''Petr''), r_date = Some (ascii ''01.02.2024''),
                     r_object = Some (ascii ''shagal''), r_status = None\<rparr>]\<rparr>)
     \<lparr>ordinal = 738946, micros = 0\<rparr> [1064, 1072, 1075, 1072, 1083] =
     Inr (Found \<lparr>f_query = [1064, 1072, 1075, 1072, 1083],
                 f_object = [1064, 1072, 1075, 1072, 1083],
                 f_objects = [[1064, 1072, 1075, 1072, 1083]], f_days = 60,
                 f_brokers = [ascii ''Ivan''], f_score = 100, f_exact = True\<rparr>) \<and>
   normalize (Some (ascii ''shagal'')) \<in>
     set (map (\<lambda>name. normalize (Some name)) (get_synonyms [1064, 1072, 1075, 1072, 1083]))"
  by (simp add: eval_strings eval_matcher eval_data)

text \<open>
  Claim C3, as amended: when \<open>search_brokers\<close> returns a match that is not exact,
  \<open>handle_message\<close> replies with the suggestion of the matched object and asks for
  the exact name (unless the message is empty or a district query); it never lists
  brokers for it.
\<close>

theorem fuzzy_match_not_displayed:
  assumes "search_brokers strptime scorer file now (strip message_text) = Inr (Found r)"
    and "\<not> f_exact r"
  shows "handle_message strptime scorer file now message_text =
           Inr (ReplySuggestion (f_object r)) \<or>
         handle_message strptime scorer file now message_text = Inr NoReply \<or>
         (\<exists>district_query.
            handle_message strptime scorer file now message_text =
              Inr (DistrictSearch district_query))"
  using assms by (auto simp: handle_message_def reply_of_result_def Let_def)

theorem fuzzy_match_not_displayed_witness:
  "handle_message (\<lambda>s. Some 738917) (\<lambda>a b. if a = b then 100 else 80)
     (Some \<lparr>columns = required,
            rows = [\<lparr>r_broker = Some (ascii ''Ivan''), r_date = Some (ascii ''01.02.2024''),
                     r_object = Some (ascii ''Prime Park''), r_status = None\<rparr>]\<rparr>)
     \<lparr>ordinal = 738946, micros = 0\<rparr> (ascii '' prime-park '') =
     Inr (ReplySuggestion (ascii ''Prime Park''))"
proof -
  let ?sp = "\<lambda>s :: ustr. Some (738917 :: int)"
  let ?sc = "\<lambda>a b :: ustr. if a = b then 100 else 80 :: rat"
  let ?file = "Some \<lparr>columns = required,
            rows = [\<lparr>r_broker = Some (ascii ''Ivan''), r_date = Some (ascii ''01.02.2024''),
                     r_object = Some (ascii ''Prime Park''), r_status = None\<rparr>]\<rparr>"
  let ?now = "\<lparr>ordinal = 738946, micros = 0\<rparr>"
  let ?r = "\<lparr>f_query = ascii ''prime-park'', f_object = ascii ''Prime Park'',
                 f_objects = [ascii ''Prime Park''], f_days = 60,
                 f_brokers = [ascii ''Ivan''], f_score = 80, f_exact = False\<rparr>"
  have s: "strip (ascii '' prime-park '') = ascii ''prime-park''"
    by (simp add: eval_strings)
  have h': "search_brokers ?sp ?sc ?file ?now (ascii ''prime-park'') = Inr (Found ?r)"
    by (simp add: eval_strings eval_matcher eval_data)
  then have h: "search_brokers ?sp ?sc ?file ?now (strip (ascii '' prime-park '')) =
      Inr (Found ?r)"
    by (simp only: s)
  have e: "\<not> f_exact ?r" by simp
  have "handle_message ?sp ?sc ?file ?now (ascii '' prime-park '') =
      Inr (reply_of_result (Found ?r))"
    unfolding handle_message_def s Let_def h' by (simp add: eval_strings)
  then have n: "handle_message ?sp ?sc ?file ?now (ascii '' prime-park '') \<noteq> Inr NoReply"
    "handle_message ?sp ?sc ?file ?now (ascii '' prime-park '') \<noteq> Inr (DistrictSearch dq)" for dq
    by (simp_all add: reply_of_result_def)
  from fuzzy_match_not_displayed [OF h e] n show ?thesis by auto
qed

text \<open>
  Claim C3 as stated fails where it says that no aggregated broker list is produced:
  for the fuzzy guess \<open>Prime Park\<close> of the query \<open>prime-park\<close> the result of
  \<open>search_brokers\<close> has \<open>exact\<close> false and carries the aggregated brokers of the
  guessed object.
\<close>

theorem fuzzy_guess_aggregated_counterexample:
  "search_brokers (\<lambda>s. Some 738917) (\<lambda>a b. if a = b then 100 else 80)
     (Some \<lparr>columns = required,
            rows = [\<lparr>r_broker = Some (ascii ''Ivan''), r_date = Some (ascii ''01.02.2024''),
                     r_object = Some (ascii ''Prime Park''), r_status = None\<rparr>]\<rparr>)
     \<lparr>ordinal = 738946, micros = 0\<rparr> (ascii ''prime-park'') =
     Inr (Found \<lparr>f_query = ascii ''prime-park'', f_object = ascii ''Prime Park'',
                 f_objects = [ascii ''Prime Park''], f_days = 60,
                 f_brokers = [ascii ''Ivan''], f_score = 80, f_exact = False\<rparr>)"
  by (simp add: eval_strings eval_matcher eval_data)

end
